theory Spec2Isabelle
  imports Main "HOL-Library.Sublist"
begin

section \<open>Remote file access layer of waveterm: wshremote and iochan\<close>

text \<open>
  The development follows \<^verbatim>\<open>pkg/wshrpc/wshremote/wshremote.go\<close> and the
  \<^verbatim>\<open>iochan\<close> package that is appended to it. Go strings and byte slices are
  \<^typ>\<open>string\<close> (lists of bytes), Go's \<^verbatim>\<open>error\<close> results are sums with the
  error on the left.
\<close>

subsection \<open>resolvePaths\<close>

text \<open>
  Modelled from the spec: \<^verbatim>\<open>wavebase.ExpandHomeDirSafe\<close> is not part of the sources
  at hand. The specification says that a leading home-directory shorthand is expanded
  against the home directory of the resolving endpoint; every other path is left as it
  is written. The home directory is a parameter.
\<close>

definition ExpandHomeDirSafe :: "string \<Rightarrow> string \<Rightarrow> string" where
  "ExpandHomeDirSafe home p =
     (if p = ''~'' then home
      else if take 2 p = ''~/'' then home @ ''/'' @ drop 2 p
      else p)"

text \<open>\<^verbatim>\<open>filepath.IsAbs\<close> on a Unix endpoint: the path begins with a slash.\<close>

definition IsAbs :: "string \<Rightarrow> bool" where
  "IsAbs p = (case p of [] \<Rightarrow> False | c # _ \<Rightarrow> c = CHR ''/'')"

text \<open>
  \<^verbatim>\<open>resolvePaths\<close>, lines 544 to 558. \<^verbatim>\<open>filepath.Join\<close> belongs to the Go
  library and is the parameter \<open>join\<close>; the loop over \<^verbatim>\<open>paths[1:]\<close> is
  \<open>resolveLoop\<close>, whose first argument is \<^verbatim>\<open>rtnPath\<close>.
\<close>

fun resolveLoop :: "string \<Rightarrow> (string \<Rightarrow> string \<Rightarrow> string) \<Rightarrow> string \<Rightarrow> string list \<Rightarrow> string" where
  "resolveLoop home join rtnPath [] = rtnPath"
| "resolveLoop home join rtnPath (path # rest) =
     (let path' = ExpandHomeDirSafe home path
      in if IsAbs path' then resolveLoop home join path' rest
         else resolveLoop home join (join rtnPath path') rest)"

definition resolvePaths :: "string \<Rightarrow> (string \<Rightarrow> string \<Rightarrow> string) \<Rightarrow> string list \<Rightarrow> string" where
  "resolvePaths home join paths =
     (case paths of
        [] \<Rightarrow> ExpandHomeDirSafe home ''~''
      | p0 # rest \<Rightarrow> resolveLoop home join (ExpandHomeDirSafe home p0) rest)"

subsection \<open>Errors, directory entries and file metadata\<close>

text \<open>
  An error built by \<^verbatim>\<open>fmt.Errorf\<close> or \<^verbatim>\<open>errors.New\<close> keeps its format string, the
  paths substituted for \<^verbatim>\<open>%q\<close> and the error wrapped by \<^verbatim>\<open>%w\<close>. The other
  constructors are the errors that the Go library hands to this code.
\<close>

datatype error =
    Errorf string "string list" "error option"
  | CtxCanceled
  | EOF
  | ErrNotExist
  | IOError string
  | SlicePanic

text \<open>
  \<^verbatim>\<open>errors.Is(err, io.EOF)\<close>: the error is \<^verbatim>\<open>io.EOF\<close>, or it wraps, by the verb
  \<^verbatim>\<open>%w\<close> of its format, an error of which this holds.
\<close>

fun hasVerbW :: "string \<Rightarrow> bool" where
  "hasVerbW (a # b # cs) = ((a = CHR ''%'' \<and> b = CHR ''w'') \<or> hasVerbW (b # cs))"
| "hasVerbW other = False"

fun errorsIsEOF :: "error \<Rightarrow> bool" where
  "errorsIsEOF EOF = True"
| "errorsIsEOF (Errorf fmt args (Some err)) = (hasVerbW fmt \<and> errorsIsEOF err)"
| "errorsIsEOF other = False"

text \<open>
  \<^verbatim>\<open>fs.FileInfo\<close> as returned by \<^verbatim>\<open>Info()\<close> and \<^verbatim>\<open>os.Stat\<close>, and \<^verbatim>\<open>os.DirEntry\<close>,
  whose \<^verbatim>\<open>Info()\<close> may fail. Of \<^verbatim>\<open>wshrpc.FileInfo\<close> the fields name, size, directory
  flag and not-found flag are kept.
\<close>

record StatInfo =
  stName :: string
  stSize :: int
  stIsDir :: bool

record DirEntry =
  deName :: string
  deIsDir :: bool
  deInfo :: "error + StatInfo"

record FileInfo =
  Name :: string
  Size :: int
  IsDir :: bool
  NotFound :: bool

record ByteRangeType =
  All :: bool
  Start :: int
  End :: int

text \<open>\<^verbatim>\<open>statToFileInfo\<close>, lines 462 to 480: a directory reports the size \<open>-1\<close>.\<close>

definition statToFileInfo :: "StatInfo \<Rightarrow> FileInfo" where
  "statToFileInfo finfo =
     \<lparr>Name = stName finfo,
      Size = (if stIsDir finfo then -1 else stSize finfo),
      IsDir = stIsDir finfo,
      NotFound = False\<rparr>"

text \<open>
  The loop that turns directory entries into batches of \<^verbatim>\<open>DirChunkSize\<close> records
  (lines 95 to 112, and again lines 436 to 457). \<open>ctx i\<close> tells whether the context is
  found cancelled by the check of iteration \<open>i\<close>; \<open>arr\<close> is \<^verbatim>\<open>fileInfoArr\<close> and
  \<open>out\<close> the batches handed over so far. An entry whose \<^verbatim>\<open>Info()\<close> fails is skipped.
  The result is the batches handed over and the error, if the loop ended on one.
\<close>

fun infoLoop :: "(nat \<Rightarrow> bool) \<Rightarrow> nat \<Rightarrow> nat \<Rightarrow> DirEntry list \<Rightarrow> FileInfo list \<Rightarrow>
    FileInfo list list \<Rightarrow> FileInfo list list \<times> error option" where
  "infoLoop ctx chunk i [] arr out = (if length arr > 0 then out @ [arr] else out, None)"
| "infoLoop ctx chunk i (e # es) arr out =
     (if ctx i then (out, Some CtxCanceled)
      else case deInfo e of
        Inl err \<Rightarrow> infoLoop ctx chunk (Suc i) es arr out
      | Inr st \<Rightarrow>
          (let arr' = arr @ [statToFileInfo st]
           in if length arr' \<ge> chunk then infoLoop ctx chunk (Suc i) es [] (out @ [arr'])
              else infoLoop ctx chunk (Suc i) es arr' out))"

subsection \<open>remoteStreamFileDir\<close>

text \<open>
  Lines 68 to 114. The environment is read once and passed in: \<open>readDir\<close> is the result
  of \<^verbatim>\<open>os.ReadDir(path)\<close>, \<open>parent\<close> is \<^verbatim>\<open>filepath.Dir(path)\<close> and \<open>parentInfo\<close> the
  result of \<^verbatim>\<open>fileInfoInternal(parent, false)\<close>. \<open>maxDirSize\<close> and \<open>chunk\<close> are the
  constants \<^verbatim>\<open>wshrpc.MaxDirSize\<close> and \<^verbatim>\<open>wshrpc.DirChunkSize\<close>. A slice expression
  with bounds out of order panics. The result is the batches given to the data
  callback and the returned error.
\<close>

definition remoteStreamFileDir :: "(nat \<Rightarrow> bool) \<Rightarrow> nat \<Rightarrow> nat \<Rightarrow> string \<Rightarrow> string \<Rightarrow>
    error + DirEntry list \<Rightarrow> error + FileInfo \<Rightarrow> ByteRangeType \<Rightarrow>
    FileInfo list list \<times> error option" where
  "remoteStreamFileDir ctx maxDirSize chunk path parent readDir parentInfo byteRange =
     (case readDir of
        Inl err \<Rightarrow> ([], Some (Errorf ''cannot open dir %q: %w'' [path] (Some err)))
      | Inr innerFilesEntries \<Rightarrow>
          (let n = int (length innerFilesEntries);
               parentArr = (case parentInfo of
                    Inl err \<Rightarrow> []
                  | Inr parentFileInfo \<Rightarrow>
                      if parent \<noteq> path then [parentFileInfo\<lparr>Name := ''..'', Size := -1\<rparr>] else [])
           in if All byteRange then
                infoLoop ctx chunk 0
                  (if length innerFilesEntries > maxDirSize then take maxDirSize innerFilesEntries
                   else innerFilesEntries) parentArr []
              else if Start byteRange \<ge> n then ([], None)
              else
                (let realEnd = (if End byteRange > n then n else End byteRange)
                 in if Start byteRange < 0 \<or> realEnd < Start byteRange then ([], Some SlicePanic)
                    else infoLoop ctx chunk 0
                      (drop (nat (Start byteRange)) (take (nat realEnd) innerFilesEntries))
                      parentArr [])))"

text \<open>
  The records of the entries whose \<^verbatim>\<open>Info()\<close> succeeds, in order, and the synthesized
  parent entry of lines 90 to 94. Both only serve to state what is returned.
\<close>

definition entryInfos :: "DirEntry list \<Rightarrow> FileInfo list" where
  "entryInfos es =
     concat (map (\<lambda>e. case deInfo e of Inl err \<Rightarrow> [] | Inr st \<Rightarrow> [statToFileInfo st]) es)"

definition dotdot :: "string \<Rightarrow> string \<Rightarrow> FileInfo \<Rightarrow> FileInfo list" where
  "dotdot path parent parentFileInfo =
     (if parent \<noteq> path then [parentFileInfo\<lparr>Name := ''..'', Size := -1\<rparr>] else [])"

subsection \<open>RemoteListEntriesCommand\<close>










subsection \<open>iochan: ReaderChan and WriterChan\<close>

text \<open>
  A packet carries data, or the checksum, which is \<^verbatim>\<open>nil\<close> (\<open>None\<close>) in a data packet.
  A message of the channel is a packet or an error. SHA-256 belongs to the Go library:
  the digest is the parameter \<open>H\<close>, applied to all the bytes written to the hash so far
  (writing to the hash never fails).
\<close>

record Packet =
  Data :: string
  Checksum :: "string option"

type_synonym Resp = "error + Packet"

text \<open>
  What the goroutine of \<^verbatim>\<open>ReaderChan\<close> (lines 674 to 709) meets at each turn of its loop:
  the context is done, or \<^verbatim>\<open>r.Read\<close> returns the bytes read and its error. What it
  does to the channel and the callback is the trace of the events below. A send is taken
  to complete: the consumer keeps receiving or drains the channel.
\<close>

datatype ReaderEv = CtxDoneEv | ReadEv string "error option"

datatype ChanEv = Send Resp | Close | Callback

text \<open>
  The first argument after \<open>H\<close> is what has been written to the hash. When the events
  run out the goroutine has not returned yet: the trace has no close.
\<close>

fun ReaderChan :: "(string \<Rightarrow> string) \<Rightarrow> string \<Rightarrow> ReaderEv list \<Rightarrow> ChanEv list" where
  "ReaderChan H acc [] = []"
| "ReaderChan H acc (CtxDoneEv # evs) = [Close, Callback]"
| "ReaderChan H acc (ReadEv buf (Some err) # evs) =
     (if errorsIsEOF err then
        [Send (Inr \<lparr>Data = [], Checksum = Some (H acc)\<rparr>), Close, Callback]
      else
        [Send (Inl (Errorf ''ReaderChan: read error: %v'' [] (Some err))), Close, Callback])"
| "ReaderChan H acc (ReadEv buf None # evs) =
     (if length buf > 0 then
        Send (Inr \<lparr>Data = buf, Checksum = None\<rparr>) # ReaderChan H (acc @ buf) evs
      else ReaderChan H acc evs)"

text \<open>A terminal packet is an error or a packet with a checksum.\<close>

fun terminal :: "ChanEv \<Rightarrow> bool" where
  "terminal (Send (Inl err)) = True"
| "terminal (Send (Inr pk)) = (Checksum pk \<noteq> None)"
| "terminal Close = False"
| "terminal Callback = False"

text \<open>The goroutine returns when it meets a done context or an error of the reader.\<close>

fun returns :: "ReaderEv \<Rightarrow> bool" where
  "returns CtxDoneEv = True"
| "returns (ReadEv buf err) = (err \<noteq> None)"

text \<open>
  What the goroutine of \<^verbatim>\<open>WriterChan\<close> (lines 712 to 750) meets at each turn: the context
  is done, the channel is closed, or a message is received. \<open>write\<close> is \<^verbatim>\<open>w.Write\<close> on
  a writer in the state \<open>w\<close>. The result is the final writer, the errors given to the
  error callback, and whether the goroutine has returned (it then drains the channel and
  calls the callback).
\<close>

datatype SelectEv = CtxDone | ChanClosed | Recv Resp

record 'w WriterResult =
  writer :: 'w
  errCalls :: "error list"
  returned :: bool

fun WriterChan :: "(string \<Rightarrow> string) \<Rightarrow> ('w \<Rightarrow> string \<Rightarrow> error + 'w) \<Rightarrow> string \<Rightarrow> 'w \<Rightarrow>
    SelectEv list \<Rightarrow> 'w WriterResult" where
  "WriterChan H write acc w [] = \<lparr>writer = w, errCalls = [], returned = False\<rparr>"
| "WriterChan H write acc w (CtxDone # evs) = \<lparr>writer = w, errCalls = [], returned = True\<rparr>"
| "WriterChan H write acc w (ChanClosed # evs) = \<lparr>writer = w, errCalls = [], returned = True\<rparr>"
| "WriterChan H write acc w (Recv (Inl err) # evs) =
     \<lparr>writer = w, errCalls = [err], returned = True\<rparr>"
| "WriterChan H write acc w (Recv (Inr pk) # evs) =
     (let acc' = acc @ Data pk
      in case Checksum pk of
        Some cksum \<Rightarrow>
          (if H acc' \<noteq> cksum then
             \<lparr>writer = w, errCalls = [Errorf ''WriterChan: checksum mismatch'' [] None],
              returned = True\<rparr>
           else \<lparr>writer = w, errCalls = [], returned = True\<rparr>)
      | None \<Rightarrow>
          (case write w (Data pk) of
             Inl err \<Rightarrow>
               \<lparr>writer = w, errCalls = [Errorf ''WriterChan: write error: %v'' [] (Some err)],
                returned = True\<rparr>
           | Inr w' \<Rightarrow> WriterChan H write acc' w' evs))"

text \<open>The data packets for a list of chunks, as received, and writing the chunks in turn.\<close>

definition recvData :: "string list \<Rightarrow> SelectEv list" where
  "recvData chunks = map (\<lambda>d. Recv (Inr \<lparr>Data = d, Checksum = None\<rparr>)) chunks"

fun writeAll :: "('w \<Rightarrow> string \<Rightarrow> error + 'w) \<Rightarrow> 'w \<Rightarrow> string list \<Rightarrow> error + 'w" where
  "writeAll write w [] = Inr w"
| "writeAll write w (d # ds) =
     (case write w d of Inl err \<Rightarrow> Inl err | Inr w' \<Rightarrow> writeAll write w' ds)"

subsection \<open>remoteStreamFileRegular\<close>

text \<open>
  \<^verbatim>\<open>fd.Read(buf)\<close> on a regular file with the given content, at the offset \<open>off\<close> of the
  descriptor, into a buffer of \<open>chunk\<close> bytes: an empty buffer reads nothing, the end of
  the file gives \<^verbatim>\<open>io.EOF\<close>, otherwise the bytes available are returned, as many as fit.
  \<open>fault\<close>, when given, is an offset from which reading fails.
\<close>

definition fdRead :: "string \<Rightarrow> nat option \<Rightarrow> nat \<Rightarrow> nat \<Rightarrow> string \<times> error option" where
  "fdRead content fault chunk off =
     (if chunk = 0 then ([], None)
      else if (case fault of None \<Rightarrow> False | Some f \<Rightarrow> f \<le> off) then ([], Some (IOError ''read''))
      else if length content \<le> off then ([], Some EOF)
      else (take chunk (drop off content), None))"

text \<open>
  The loop of lines 131 to 152. \<open>i\<close> counts the iterations, \<open>off\<close> is the offset of the
  descriptor, \<open>filePos\<close> the variable of that name and \<open>out\<close> the chunks given to the
  data callback so far. The loop need not end (an empty buffer is never filled), so the
  result is optional; it is the chunks given to the callback and the returned error.
  Slicing the buffer at a negative length panics.
\<close>

partial_function (option) regularLoop :: "(nat \<Rightarrow> bool) \<Rightarrow> nat \<Rightarrow> string \<Rightarrow> string \<Rightarrow>
    nat option \<Rightarrow> ByteRangeType \<Rightarrow> nat \<Rightarrow> nat \<Rightarrow> int \<Rightarrow> string list \<Rightarrow>
    (string list \<times> error option) option" where
  "regularLoop ctx chunk path content fault byteRange i off filePos out =
     (if ctx i then Some (out, Some CtxCanceled)
      else
        let rd = fdRead content fault chunk off;
            n = int (length (fst rd));
            n' = (if \<not> All byteRange \<and> filePos + n > End byteRange
                  then End byteRange - filePos else n)
        in if n > 0 \<and> n' < 0 then Some (out, Some SlicePanic)
           else
             let filePos' = (if n > 0 then filePos + n' else filePos);
                 out' = (if n > 0 then out @ [take (nat n') (fst rd)] else out)
             in if \<not> All byteRange \<and> filePos' \<ge> End byteRange then Some (out', None)
                else case snd rd of
                  Some err \<Rightarrow>
                    if errorsIsEOF err then Some (out', None)
                    else Some (out', Some (Errorf ''reading file %q: %w'' [path] (Some err)))
                | None \<Rightarrow>
                    regularLoop ctx chunk path content fault byteRange (Suc i)
                      (off + length (fst rd)) filePos' out')"

text \<open>
  Lines 116 to 154. \<open>openRes\<close> is the result of \<^verbatim>\<open>os.Open\<close>: an error or the content of
  the file; \<open>seekErr\<close> is the error of \<^verbatim>\<open>fd.Seek\<close>, if it fails.
\<close>

definition remoteStreamFileRegular :: "(nat \<Rightarrow> bool) \<Rightarrow> nat \<Rightarrow> string \<Rightarrow> error + string \<Rightarrow>
    error option \<Rightarrow> nat option \<Rightarrow> ByteRangeType \<Rightarrow> (string list \<times> error option) option" where
  "remoteStreamFileRegular ctx chunk path openRes seekErr fault byteRange =
     (case openRes of
        Inl err \<Rightarrow> Some ([], Some (Errorf ''cannot open file %q: %w'' [path] (Some err)))
      | Inr content \<Rightarrow>
          if \<not> All byteRange \<and> Start byteRange > 0 then
            (case seekErr of
               Some err \<Rightarrow> Some ([], Some (Errorf ''seeking file %q: %w'' [path] (Some err)))
             | None \<Rightarrow>
                 regularLoop ctx chunk path content fault byteRange 0
                   (nat (Start byteRange)) (Start byteRange) [])
          else regularLoop ctx chunk path content fault byteRange 0 0 0 [])"

subsection \<open>parseByteRange\<close>

text \<open>
  \<^verbatim>\<open>fmt.Sscanf(rangeStr, "%d-%d", &start, &end)\<close> belongs to the Go library. Its
  scanner is written out for this format, over the bytes of the input, which Go reads
  as UTF-8. The verb \<^verbatim>\<open>%d\<close> skips white space, where a newline is an error, accepts
  one sign, then takes the longest run of decimal digits (an underscore is taken only
  by the verb \<^verbatim>\<open>%v\<close>) and hands sign and digits to \<^verbatim>\<open>strconv.ParseInt\<close> in base 10
  for 64 bits. The literal \<^verbatim>\<open>-\<close> of the format must be the next byte. Nothing looks at
  what follows the second number. Which error the scanner reports does not reach the
  caller: line 60 replaces every one of them.
\<close>

definition isDigit :: "char \<Rightarrow> bool" where
  "isDigit c = (48 \<le> (of_char c :: nat) \<and> (of_char c :: nat) \<le> 57)"

text \<open>
  The runes for which \<^verbatim>\<open>isSpace\<close> of package \<^verbatim>\<open>fmt\<close> holds, the newline apart (it is
  looked at before), each as its UTF-8 bytes: U+0009, U+000B to U+000D, U+0020, U+0085,
  U+00A0, U+1680, U+2000 to U+200A, U+2028, U+2029, U+202F, U+205F and U+3000.
\<close>

definition blankRunes :: "string list" where
  "blankRunes =
     [[CHR 0x09], [CHR 0x0B], [CHR 0x0C], [CHR 0x0D], [CHR 0x20],
      [CHR 0xC2, CHR 0x85], [CHR 0xC2, CHR 0xA0], [CHR 0xE1, CHR 0x9A, CHR 0x80],
      [CHR 0xE2, CHR 0x80, CHR 0x80], [CHR 0xE2, CHR 0x80, CHR 0x81],
      [CHR 0xE2, CHR 0x80, CHR 0x82], [CHR 0xE2, CHR 0x80, CHR 0x83],
      [CHR 0xE2, CHR 0x80, CHR 0x84], [CHR 0xE2, CHR 0x80, CHR 0x85],
      [CHR 0xE2, CHR 0x80, CHR 0x86], [CHR 0xE2, CHR 0x80, CHR 0x87],
      [CHR 0xE2, CHR 0x80, CHR 0x88], [CHR 0xE2, CHR 0x80, CHR 0x89],
      [CHR 0xE2, CHR 0x80, CHR 0x8A], [CHR 0xE2, CHR 0x80, CHR 0xA8],
      [CHR 0xE2, CHR 0x80, CHR 0xA9], [CHR 0xE2, CHR 0x80, CHR 0xAF],
      [CHR 0xE2, CHR 0x81, CHR 0x9F], [CHR 0xE3, CHR 0x80, CHR 0x80]]"

text \<open>The blank rune the input starts with, if it starts with one.\<close>

definition leadingBlank :: "string \<Rightarrow> string option" where
  "leadingBlank s = find (\<lambda>r. prefix r s) blankRunes"

text \<open>
  \<^verbatim>\<open>SkipSpace\<close> of the scanner: a carriage return before a newline is passed over, a
  newline is an error (\<^verbatim>\<open>nlIsSpace\<close> is false for \<^verbatim>\<open>Sscanf\<close>), any other blank rune is
  passed over, and the first rune that is not blank is left in the input.
\<close>

function SkipSpace :: "string \<Rightarrow> error + string" where
  "SkipSpace [] = Inr []"
| "SkipSpace (c # cs) =
     (if c = CHR 0x0D \<and> (case cs of [] \<Rightarrow> False | d # _ \<Rightarrow> d = CHR 0x0A) then SkipSpace cs
      else if c = CHR 0x0A then Inl (Errorf ''unexpected newline'' [] None)
      else (case leadingBlank (c # cs) of
        Some r \<Rightarrow> SkipSpace (drop (length r) (c # cs))
      | None \<Rightarrow> Inr (c # cs)))"
  by pat_completeness auto
termination
proof (relation "measure length")
  show "wf (measure length)" by simp
next
  fix c :: char and cs :: string
  show "(cs, c # cs) \<in> measure length" by simp
next
  fix c :: char and cs r :: string
  assume "leadingBlank (c # cs) = Some r"
  then have "r \<in> set blankRunes"
    unfolding leadingBlank_def by (auto simp: find_Some_iff)
  moreover have "\<forall>r \<in> set blankRunes. r \<noteq> []" by (simp add: blankRunes_def)
  ultimately have "r \<noteq> []" by blast
  then show "(drop (length r) (c # cs), c # cs) \<in> measure length"
    by (cases r) simp_all
qed

declare SkipSpace.simps(2) [simp del]

text \<open>
  \<^verbatim>\<open>strconv.ParseInt(tok, 10, 64)\<close>: an optional sign, then decimal digits only, and the
  value must fit 64 bits.
\<close>

definition digitsVal :: "string \<Rightarrow> nat" where
  "digitsVal ds = foldl (\<lambda>v c. 10 * v + (of_char c - 48)) 0 ds"

definition ParseUint :: "string \<Rightarrow> error + nat" where
  "ParseUint ds =
     (if ds = [] \<or> \<not> list_all isDigit ds then Inl (Errorf ''invalid syntax'' [] None)
      else Inr (digitsVal ds))"

definition ParseInt :: "string \<Rightarrow> error + int" where
  "ParseInt tok =
     (case tok of
        [] \<Rightarrow> Inl (Errorf ''invalid syntax'' [] None)
      | c # cs \<Rightarrow>
          (let neg = (c = CHR ''-'');
               ds = (if c = CHR ''+'' \<or> c = CHR ''-'' then cs else tok)
           in case ParseUint ds of
             Inl err \<Rightarrow> Inl err
           | Inr v \<Rightarrow>
               if \<not> neg \<and> v \<ge> 2 ^ 63 then Inl (Errorf ''value out of range'' [] None)
               else if neg \<and> v > 2 ^ 63 then Inl (Errorf ''value out of range'' [] None)
               else Inr (if neg then - int v else int v)))"

text \<open>The verb \<^verbatim>\<open>%d\<close>: the number scanned and the input that is left.\<close>

definition scanInt :: "string \<Rightarrow> error + int \<times> string" where
  "scanInt inp =
     (case SkipSpace inp of
        Inl err \<Rightarrow> Inl err
      | Inr s1 \<Rightarrow>
          (case s1 of
             [] \<Rightarrow> Inl (Errorf ''unexpected EOF'' [] None)
           | c # cs \<Rightarrow>
               (let sgn = (if c = CHR ''+'' \<or> c = CHR ''-'' then [c] else []);
                    s2 = (if c = CHR ''+'' \<or> c = CHR ''-'' then cs else s1)
                in if s2 = [] then Inl (Errorf ''unexpected EOF'' [] None)
                   else if takeWhile isDigit s2 = [] then
                     Inl (Errorf ''expected integer'' [] None)
                   else (case ParseInt (sgn @ takeWhile isDigit s2) of
                     Inl err \<Rightarrow> Inl err
                   | Inr v \<Rightarrow> Inr (v, dropWhile isDigit s2)))))"

definition Sscanf_d_d :: "string \<Rightarrow> error + int \<times> int" where
  "Sscanf_d_d inp =
     (case scanInt inp of
        Inl err \<Rightarrow> Inl err
      | Inr (a, s1) \<Rightarrow>
          (case s1 of
             [] \<Rightarrow> Inl (Errorf ''unexpected EOF'' [] None)
           | c # s2 \<Rightarrow>
               if c \<noteq> CHR ''-'' then Inl (Errorf ''input does not match format'' [] None)
               else (case scanInt s2 of
                 Inl err \<Rightarrow> Inl err
               | Inr (b, s3) \<Rightarrow> Inr (a, b))))"

text \<open>\<^verbatim>\<open>parseByteRange\<close>, lines 53 to 66.\<close>

definition parseByteRange :: "string \<Rightarrow> error + ByteRangeType" where
  "parseByteRange rangeStr =
     (if rangeStr = [] then Inr \<lparr>All = True, Start = 0, End = 0\<rparr>
      else (case Sscanf_d_d rangeStr of
        Inl err \<Rightarrow> Inl (Errorf ''invalid byte range'' [] None)
      | Inr (start, end) \<Rightarrow>
          if start < 0 \<or> end < 0 \<or> start > end then Inl (Errorf ''invalid byte range'' [] None)
          else Inr \<lparr>All = False, Start = start, End = end\<rparr>))"

text \<open>
  The strings that \<^verbatim>\<open>parseByteRange\<close> is compared with are described apart from the
  scanner. A run of blanks is a concatenation of blank runes; a sign is nothing, a plus
  or a minus; a number is a run of decimal digits that is not empty; the text after the
  second number is empty or starts with a byte that is no digit. \<open>rangeForm str s e\<close>
  says that \<open>str\<close> starts with a range written as blanks, sign and number, the hyphen,
  and again blanks, sign and number, and that \<open>s\<close> and \<open>e\<close> are the values written.
\<close>

definition blanks :: "string \<Rightarrow> bool" where
  "blanks sp = (\<exists>rs. set rs \<subseteq> set blankRunes \<and> sp = concat rs)"

definition isSign :: "string \<Rightarrow> bool" where
  "isSign sg = (sg = [] \<or> sg = ''+'' \<or> sg = ''-'')"

definition isNumber :: "string \<Rightarrow> bool" where
  "isNumber ds = (ds \<noteq> [] \<and> list_all isDigit ds)"

definition signedVal :: "string \<Rightarrow> string \<Rightarrow> int" where
  "signedVal sg ds = (if sg = ''-'' then - int (digitsVal ds) else int (digitsVal ds))"

definition stops :: "string \<Rightarrow> bool" where
  "stops rest = (case rest of [] \<Rightarrow> True | c # _ \<Rightarrow> \<not> isDigit c)"

definition rangeForm :: "string \<Rightarrow> int \<Rightarrow> int \<Rightarrow> bool" where
  "rangeForm str s e =
     (\<exists>sp1 sg1 ds1 sp2 sg2 ds2 rest.
        str = sp1 @ sg1 @ ds1 @ ''-'' @ sp2 @ sg2 @ ds2 @ rest
        \<and> blanks sp1 \<and> isSign sg1 \<and> isNumber ds1
        \<and> blanks sp2 \<and> isSign sg2 \<and> isNumber ds2 \<and> stops rest
        \<and> s = signedVal sg1 ds1 \<and> e = signedVal sg2 ds2)"

text \<open>The decimal numeral of a natural number, as one writes the bounds of a range.\<close>

fun decimal :: "nat \<Rightarrow> string" where
  "decimal n =
     (if n < 10 then [char_of (48 + n)]
      else decimal (n div 10) @ [char_of (48 + n mod 10)])"

declare decimal.simps [simp del]

definition rangeString :: "nat \<Rightarrow> nat \<Rightarrow> string" where
  "rangeString s e = decimal s @ ''-'' @ decimal e"

subsection \<open>The file system seen by the copy destination\<close>

text \<open>
  A path is the list of its components, a file system the list of its nodes with their
  paths: directories with a mode, files with content and mode. The functions below are
  the calls of the Go library that \<^verbatim>\<open>RemoteFileCopyCommand\<close> makes, on this file system.
  \<^verbatim>\<open>os.Stat\<close> fails with an error that is not "not exist" when a component of the path
  is a file; \<^verbatim>\<open>os.Remove\<close> refuses a directory that is not empty; \<^verbatim>\<open>os.RemoveAll\<close>
  removes a path with everything below it and succeeds on a path that is absent;
  \<^verbatim>\<open>os.MkdirAll\<close> creates the missing directories along the path; \<^verbatim>\<open>os.Create\<close>
  needs the parent directory and truncates. A node that is created gets the permission
  asked for without the bits of the umask of the process, which is a parameter.
\<close>

unbundle bit_operations_syntax

type_synonym path = "string list"

datatype node = Dir nat | File string nat

type_synonym filesys = "(path \<times> node) list"

fun isFile :: "node option \<Rightarrow> bool" where
  "isFile (Some (File c m)) = True"
| "isFile other = False"

text \<open>The path as it is printed in an error.\<close>

definition pathString :: "path \<Rightarrow> string" where
  "pathString p = concat (map (\<lambda>c. CHR ''/'' # c) p)"

definition os_Stat :: "filesys \<Rightarrow> path \<Rightarrow> error + node" where
  "os_Stat fs p =
     (if list_ex (\<lambda>q. isFile (map_of fs q)) (butlast (prefixes p)) then Inl (IOError ''not a directory'')
      else case map_of fs p of None \<Rightarrow> Inl ErrNotExist | Some n \<Rightarrow> Inr n)"

definition os_Remove :: "filesys \<Rightarrow> path \<Rightarrow> error + filesys" where
  "os_Remove fs p =
     (case os_Stat fs p of
        Inl err \<Rightarrow> Inl err
      | Inr (File c m) \<Rightarrow> Inr (filter (\<lambda>(q, n). q \<noteq> p) fs)
      | Inr (Dir m) \<Rightarrow>
          if list_ex (\<lambda>(q, n). strict_prefix p q) fs then Inl (IOError ''directory not empty'')
          else Inr (filter (\<lambda>(q, n). q \<noteq> p) fs))"

definition os_RemoveAll :: "filesys \<Rightarrow> path \<Rightarrow> error + filesys" where
  "os_RemoveAll fs p = Inr (filter (\<lambda>(q, n). \<not> prefix p q) fs)"

definition applyUmask :: "nat \<Rightarrow> nat \<Rightarrow> nat" where
  "applyUmask umask perm = perm - (perm AND umask)"

fun mkdirStep :: "nat \<Rightarrow> error + filesys \<Rightarrow> path \<Rightarrow> error + filesys" where
  "mkdirStep mode (Inl err) q = Inl err"
| "mkdirStep mode (Inr fs) q =
     (case map_of fs q of
        None \<Rightarrow> Inr (fs @ [(q, Dir mode)])
      | Some (Dir m) \<Rightarrow> Inr fs
      | Some (File c m) \<Rightarrow> Inl (IOError ''not a directory''))"

definition os_MkdirAll :: "nat \<Rightarrow> filesys \<Rightarrow> path \<Rightarrow> nat \<Rightarrow> error + filesys" where
  "os_MkdirAll umask fs p perm = foldl (mkdirStep (applyUmask umask perm)) (Inr fs) (prefixes p)"

definition writeNode :: "filesys \<Rightarrow> path \<Rightarrow> node \<Rightarrow> filesys" where
  "writeNode fs p n = (p, n) # filter (\<lambda>(q, n'). q \<noteq> p) fs"

definition os_Create :: "nat \<Rightarrow> filesys \<Rightarrow> path \<Rightarrow> error + filesys" where
  "os_Create umask fs p =
     (if p = [] then Inl (IOError ''is a directory'')
      else case os_Stat fs (butlast p) of
        Inl err \<Rightarrow> Inl err
      | Inr (File c m) \<Rightarrow> Inl (IOError ''not a directory'')
      | Inr (Dir m) \<Rightarrow>
          (case map_of fs p of
             Some (Dir m') \<Rightarrow> Inl (IOError ''is a directory'')
           | Some (File c' m') \<Rightarrow> Inr (writeNode fs p (File [] m'))
           | None \<Rightarrow> Inr (writeNode fs p (File [] (applyUmask umask 438)))))"

text \<open>Writing into an open file, and \<^verbatim>\<open>file.Chmod\<close>, which sets the mode as it is given.\<close>

definition writeContent :: "filesys \<Rightarrow> path \<Rightarrow> string \<Rightarrow> filesys" where
  "writeContent fs p payload =
     (case map_of fs p of
        Some (File c m) \<Rightarrow> writeNode fs p (File payload m)
      | other \<Rightarrow> fs)"

definition file_Chmod :: "filesys \<Rightarrow> path \<Rightarrow> nat \<Rightarrow> filesys" where
  "file_Chmod fs p mode =
     (case map_of fs p of
        Some (File c m) \<Rightarrow> writeNode fs p (File c mode)
      | other \<Rightarrow> fs)"

subsection \<open>RemoteFileCopyCommand\<close>

text \<open>
  An entry of the incoming archive as \<^verbatim>\<open>tarReader.Next()\<close> and the reader give it: the
  name relative to the root of the archive, the directory flag and the mode of its
  \<^verbatim>\<open>FileInfo()\<close>, the payload that \<^verbatim>\<open>io.Copy\<close> takes from the reader, and the error
  with which \<^verbatim>\<open>io.Copy\<close> ends when the stream fails under it (the payload is then what
  was copied before).
\<close>

record TarEntry =
  teName :: path
  teIsDir :: bool
  teMode :: nat
  tePayload :: string
  teCopyErr :: "error option"

record CopyOpts =
  Recursive :: bool
  Merge :: bool
  Overwrite :: bool

text \<open>
  The body of the loop, lines 323 to 386, for the entry \<open>next\<close>. The result is the file
  system together with either the error that the command returns at once, or the value
  that the body leaves in the variable \<^verbatim>\<open>err\<close> of the loop, which is the error of
  \<^verbatim>\<open>os.Stat\<close>. The results of \<^verbatim>\<open>file.Chmod\<close> and \<^verbatim>\<open>file.Close\<close> are not looked at.
  The names of the entries hold no dot components, so that joining a name to the
  destination and cleaning the result appends the components.
\<close>

definition copyEntry :: "nat \<Rightarrow> bool \<Rightarrow> bool \<Rightarrow> path \<Rightarrow> TarEntry \<Rightarrow> filesys \<Rightarrow>
    filesys \<times> (error + error option)" where
  "copyEntry umask merge overwrite destPathCleaned next fs =
     (let nextPath = destPathCleaned @ teName next
      in case os_Stat fs nextPath of
        Inl err \<Rightarrow>
          if err \<noteq> ErrNotExist then
            (fs, Inl (Errorf ''cannot stat file %q: %w'' [pathString nextPath] (Some err)))
          else if teIsDir next then
            (case os_MkdirAll umask fs nextPath (teMode next) of
               Inl e \<Rightarrow> (fs, Inl (Errorf ''cannot create directory %q: %w'' [pathString nextPath] (Some e)))
             | Inr fs' \<Rightarrow> (fs', Inr (Some err)))
          else
            (case os_Create umask fs nextPath of
               Inl e \<Rightarrow> (fs, Inl (Errorf ''cannot create new file %q: %w'' [pathString nextPath] (Some e)))
             | Inr fs' \<Rightarrow>
                 (case teCopyErr next of
                    Some e \<Rightarrow>
                      (writeContent fs' nextPath (tePayload next),
                       Inl (Errorf ''cannot write file %q: %w'' [pathString nextPath] (Some e)))
                  | None \<Rightarrow>
                      (file_Chmod (writeContent fs' nextPath (tePayload next)) nextPath (teMode next),
                       Inr (Some err))))
      | Inr (Dir m) \<Rightarrow>
          if \<not> teIsDir next then
            (if \<not> overwrite then
               (fs, Inl (Errorf ''cannot create directory %q, file exists at path, overwrite not specified''
                           [pathString nextPath] None))
             else
               (case os_Remove fs nextPath of
                  Inl e \<Rightarrow> (fs, Inl (Errorf ''cannot remove file %q: %w'' [pathString nextPath] (Some e)))
                | Inr fs' \<Rightarrow> (fs', Inr None)))
          else if \<not> merge \<and> \<not> overwrite then
            (fs, Inl (Errorf ''cannot create directory %q, directory exists at path, neither overwrite nor merge specified''
                        [pathString nextPath] None))
          else if overwrite then
            (case os_RemoveAll fs nextPath of
               Inl e \<Rightarrow> (fs, Inl (Errorf ''cannot remove directory %q: %w'' [pathString nextPath] (Some e)))
             | Inr fs' \<Rightarrow> (fs', Inr None))
          else (fs, Inr None)
      | Inr (File c m) \<Rightarrow>
          if teIsDir next then
            (if \<not> overwrite then
               (fs, Inl (Errorf ''cannot create file %q, directory exists at path, overwrite not specified''
                           [pathString nextPath] None))
             else
               (case os_RemoveAll fs nextPath of
                  Inl e \<Rightarrow> (fs, Inl (Errorf ''cannot remove directory %q: %w'' [pathString nextPath] (Some e)))
                | Inr fs' \<Rightarrow> (fs', Inr None)))
          else if \<not> overwrite then
            (fs, Inl (Errorf ''cannot create file %q, file exists at path, overwrite not specified''
                        [pathString nextPath] None))
          else
            (case os_Remove fs nextPath of
               Inl e \<Rightarrow> (fs, Inl (Errorf ''cannot remove file %q: %w'' [pathString nextPath] (Some e)))
             | Inr fs' \<Rightarrow> (fs', Inr None)))"

text \<open>
  The loop of line 322, \<^verbatim>\<open>for next, err := tarReader.Next(); err == nil; { ... }\<close>. The
  header has no post statement: \<^verbatim>\<open>next\<close> is set once, and the condition reads the
  \<^verbatim>\<open>err\<close> that the body has assigned from \<^verbatim>\<open>os.Stat\<close>. The loop need not end, so it
  runs on fuel; \<open>Running\<close> says that the fuel was used up before the loop was left.
\<close>

datatype outcome = Returned "error option" | LoopLeft | Running

fun copyLoop :: "nat \<Rightarrow> nat \<Rightarrow> bool \<Rightarrow> bool \<Rightarrow> path \<Rightarrow> TarEntry \<Rightarrow> filesys \<Rightarrow>
    filesys \<times> outcome" where
  "copyLoop 0 umask merge overwrite destPathCleaned next fs = (fs, Running)"
| "copyLoop (Suc fuel) umask merge overwrite destPathCleaned next fs =
     (case copyEntry umask merge overwrite destPathCleaned next fs of
        (fs', Inl e) \<Rightarrow> (fs', Returned (Some e))
      | (fs', Inr None) \<Rightarrow> copyLoop fuel umask merge overwrite destPathCleaned next fs'
      | (fs', Inr (Some err)) \<Rightarrow> (fs', LoopLeft))"

text \<open>
  The check of the destination before the transfer, lines 286 to 313: the file system
  after it, and the error if the command returns there.
\<close>

definition destPrecheck :: "CopyOpts \<Rightarrow> path \<Rightarrow> filesys \<Rightarrow> filesys \<times> error option" where
  "destPrecheck opts destPathCleaned fs =
     (case os_Stat fs destPathCleaned of
        Inl err \<Rightarrow> (fs, None)
      | Inr (Dir m) \<Rightarrow>
          if \<not> Recursive opts then
            (fs, Some (Errorf ''destination %q is a directory, use recursive option''
                         [pathString destPathCleaned] None))
          else if \<not> Merge opts then
            (if Overwrite opts then
               (case os_RemoveAll fs destPathCleaned of
                  Inl e \<Rightarrow> (fs, Some (Errorf ''cannot remove directory %q: %w'' [pathString destPathCleaned] (Some e)))
                | Inr fs' \<Rightarrow> (fs', None))
             else
               (fs, Some (Errorf ''destination %q is a directory, use overwrite option''
                            [pathString destPathCleaned] None)))
          else (fs, None)
      | Inr (File c m) \<Rightarrow>
          if \<not> Overwrite opts then
            (fs, Some (Errorf ''destination %q already exists, use overwrite option''
                         [pathString destPathCleaned] None))
          else
            (case os_Remove fs destPathCleaned of
               Inl e \<Rightarrow> (fs, Some (Errorf ''cannot remove file %q: %w'' [pathString destPathCleaned] (Some e)))
             | Inr fs' \<Rightarrow> (fs', None)))"

text \<open>
  The command, lines 279 to 392, on the destination side: \<open>archive\<close> holds the entries
  that the tar reader would deliver one after another. After the loop the function tests
  the variable \<^verbatim>\<open>err\<close> of its own scope, which still holds the result of the first
  \<^verbatim>\<open>os.Stat\<close> of the destination (it is never \<^verbatim>\<open>io.EOF\<close>).
\<close>

definition RemoteFileCopyCommand :: "nat \<Rightarrow> nat \<Rightarrow> CopyOpts \<Rightarrow> path \<Rightarrow> TarEntry list \<Rightarrow>
    filesys \<Rightarrow> filesys \<times> outcome" where
  "RemoteFileCopyCommand fuel umask opts destPathCleaned archive fs =
     (case destPrecheck opts destPathCleaned fs of
        (fs1, Some e) \<Rightarrow> (fs1, Returned (Some e))
      | (fs1, None) \<Rightarrow>
          (let after = (case archive of
                          [] \<Rightarrow> (fs1, LoopLeft)
                        | next # rest \<Rightarrow>
                            copyLoop fuel umask (Merge opts) (Overwrite opts) destPathCleaned
                              next fs1)
           in case after of
             (fs2, LoopLeft) \<Rightarrow>
               (case os_Stat fs destPathCleaned of
                  Inl err \<Rightarrow> (fs2, Returned (Some (Errorf ''cannot read tar stream: %w'' [] (Some err))))
                | Inr n \<Rightarrow> (fs2, Returned None))
           | (fs2, other) \<Rightarrow> (fs2, other)))"

text \<open>
  A file system for the examples: a directory with a file, a directory that holds a file,
  and an empty directory.
\<close>

definition exFs :: filesys where
  "exFs = [([], Dir 493), ([''dst''], Dir 493), ([''dst'', ''a''], File ''old'' 420),
           ([''dst'', ''sub''], Dir 493), ([''dst'', ''sub'', ''f''], File ''x'' 420),
           ([''dst'', ''empty''], Dir 493)]"

definition exFile :: "string \<Rightarrow> string \<Rightarrow> TarEntry" where
  "exFile name payload =
     \<lparr>teName = [name], teIsDir = False, teMode = 384, tePayload = payload, teCopyErr = None\<rparr>"

definition exDir :: "string \<Rightarrow> TarEntry" where
  "exDir name =
     \<lparr>teName = [name], teIsDir = True, teMode = 448, tePayload = [], teCopyErr = None\<rparr>"

subsection \<open>RemoteTarStreamCommand: the handles it opens\<close>

text \<open>
  The handles of the command of lines 210 to 277: the two ends of the pipe, the tar
  writer on the pipe, and the file opened for an archive of a single file. The calls
  that can fail are given with their results.
\<close>

datatype Handle = PipeReader | PipeWriter | TarWriter | SrcFile

datatype HandleEv = Opens Handle | Closes Handle

record TarCalls =
  srcIsDir :: bool
  tarRecursive :: bool
  resAddFS :: "error option"
  resFileInfoHeader :: "error option"
  resWriteHeader :: "error option"
  resOpen :: "error option"
  resWriteTo :: "error option"

text \<open>
  The goroutine of lines 231 to 274: what it opens and closes, and the error it sends on
  the channel, if any. It holds no call that closes \<^verbatim>\<open>file\<close>.
\<close>

definition tarWorker :: "string \<Rightarrow> TarCalls \<Rightarrow> HandleEv list \<times> error option" where
  "tarWorker path c =
     (if srcIsDir c then
        (if tarRecursive c then
           (case resAddFS c of
              Some err \<Rightarrow> ([], Some (Errorf ''cannot create tar stream for %q: %w'' [path] (Some err)))
            | None \<Rightarrow> ([], None))
         else
           ([], Some (Errorf ''cannot create tar stream for %q: %w'' [path]
                        (Some (Errorf ''directory copy requires recursive option'' [] None)))))
      else
        (case resFileInfoHeader c of
           Some err \<Rightarrow> ([], Some (Errorf ''cannot create tar header for %q: %w'' [path] (Some err)))
         | None \<Rightarrow>
             (case resWriteHeader c of
                Some err \<Rightarrow> ([], Some (Errorf ''cannot write tar header for %q: %w'' [path] (Some err)))
              | None \<Rightarrow>
                  (case resOpen c of
                     Some err \<Rightarrow> ([], Some (Errorf ''cannot open file %q: %w'' [path] (Some err)))
                   | None \<Rightarrow>
                       (case resWriteTo c of
                          Some err \<Rightarrow>
                            ([Opens SrcFile],
                             Some (Errorf ''cannot write file %q to tar stream: %w'' [path] (Some err)))
                        | None \<Rightarrow> ([Opens SrcFile], None))))))"

text \<open>
  The command: nothing is opened when the path cannot be expanded or examined; otherwise
  the pipe and the tar writer are opened, the goroutine runs, and the callback given to
  \<^verbatim>\<open>ReaderChan\<close> closes the pipe and the tar writer if \<^verbatim>\<open>ReaderChan\<close> returns.
\<close>

definition RemoteTarStreamCommand :: "error option \<Rightarrow> error option \<Rightarrow> string \<Rightarrow> TarCalls \<Rightarrow> bool \<Rightarrow>
    HandleEv list" where
  "RemoteTarStreamCommand expandErr statErr path c readerReturns =
     (case expandErr of
        Some err \<Rightarrow> []
      | None \<Rightarrow>
          (case statErr of
             Some err \<Rightarrow> []
           | None \<Rightarrow>
               [Opens PipeReader, Opens PipeWriter, Opens TarWriter] @ fst (tarWorker path c)
               @ (if readerReturns then [Closes PipeReader, Closes PipeWriter, Closes TarWriter]
                  else [])))"

text \<open>The handles that are open after a sequence of events.\<close>

fun stillOpen :: "Handle list \<Rightarrow> HandleEv list \<Rightarrow> Handle list" where
  "stillOpen hs [] = hs"
| "stillOpen hs (Opens h # evs) = stillOpen (hs @ [h]) evs"
| "stillOpen hs (Closes h # evs) = stillOpen (removeAll h hs) evs"

definition exTarFile :: "error option \<Rightarrow> TarCalls" where
  "exTarFile writeTo =
     \<lparr>srcIsDir = False, tarRecursive = False, resAddFS = None, resFileInfoHeader = None,
      resWriteHeader = None, resOpen = None, resWriteTo = writeTo\<rparr>"

text \<open>An entry whose metadata can be read, for the examples.\<close>

definition exEntry :: "string \<Rightarrow> bool \<Rightarrow> int \<Rightarrow> DirEntry" where
  "exEntry n d s =
     \<lparr>deName = n, deIsDir = d, deInfo = Inr \<lparr>stName = n, stSize = s, stIsDir = d\<rparr>\<rparr>"

section \<open>Properties\<close>

subsection \<open>Facts about resolvePaths\<close>

lemma ExpandHomeDirSafe_abs: "IsAbs a \<Longrightarrow> ExpandHomeDirSafe home a = a"
  by (cases a) (auto simp: ExpandHomeDirSafe_def IsAbs_def)

lemma resolveLoop_append:
  "resolveLoop home join acc (ps @ qs) = resolveLoop home join (resolveLoop home join acc ps) qs"
  by (induction ps arbitrary: acc) (simp_all add: Let_def)

lemma resolveLoop_reset:
  "IsAbs (ExpandHomeDirSafe home a) \<Longrightarrow>
   resolveLoop home join acc (ps @ a # qs) = resolveLoop home join (ExpandHomeDirSafe home a) qs"
  by (simp add: resolveLoop_append Let_def)

lemma resolveLoop_relative:
  "(\<And>s. s \<in> set ps \<Longrightarrow> \<not> IsAbs (ExpandHomeDirSafe home s)) \<Longrightarrow>
   resolveLoop home join acc ps = foldl join acc (map (ExpandHomeDirSafe home) ps)"
  by (induction ps arbitrary: acc) (simp_all add: Let_def)

text \<open>
  Claim C10. With no segment the result is the home directory. Otherwise the segments
  are home-expanded and joined from left to right, and a segment that is absolute after
  expansion discards whatever has been accumulated before it and becomes the new base:
  the result only depends on that segment and the ones after it. Segments that are all
  relative are joined in order onto the expanded first one. In particular joining any
  prefix \<open>p\<close> with an absolute segment \<open>a\<close> gives \<open>a\<close> itself.
\<close>

theorem resolvePaths_join:
  "resolvePaths home join [] = home
   \<and> (IsAbs (ExpandHomeDirSafe home a) \<longrightarrow>
        resolvePaths home join (p # ps @ a # qs) = resolvePaths home join (a # qs))
   \<and> ((\<forall>s \<in> set ps. \<not> IsAbs (ExpandHomeDirSafe home s)) \<longrightarrow>
        resolvePaths home join (p # ps) =
          foldl join (ExpandHomeDirSafe home p) (map (ExpandHomeDirSafe home) ps))
   \<and> (IsAbs a \<longrightarrow> resolvePaths home join [p, a] = a)"
proof (intro conjI impI)
  show "resolvePaths home join [] = home"
    by (simp add: resolvePaths_def ExpandHomeDirSafe_def)
  show "resolvePaths home join (p # ps @ a # qs) = resolvePaths home join (a # qs)"
    if "IsAbs (ExpandHomeDirSafe home a)"
    using that by (simp add: resolvePaths_def resolveLoop_reset)
  show "resolvePaths home join (p # ps) =
       foldl join (ExpandHomeDirSafe home p) (map (ExpandHomeDirSafe home) ps)"
    if "\<forall>s \<in> set ps. \<not> IsAbs (ExpandHomeDirSafe home s)"
    using that by (simp add: resolvePaths_def resolveLoop_relative)
  show "resolvePaths home join [p, a] = a" if "IsAbs a"
    using that by (simp add: resolvePaths_def ExpandHomeDirSafe_abs Let_def)
qed

theorem resolvePaths_join_witness:
  "IsAbs ''/etc''
   \<and> \<not> IsAbs (ExpandHomeDirSafe ''/home/u'' ''b'')
   \<and> resolvePaths ''/home/u'' (\<lambda>a b. a @ ''/'' @ b) [''~/x'', ''/etc''] = ''/etc''
   \<and> resolvePaths ''/home/u'' (\<lambda>a b. a @ ''/'' @ b) [''~/x'', ''b'', ''/etc'', ''c'']
       = resolvePaths ''/home/u'' (\<lambda>a b. a @ ''/'' @ b) [''/etc'', ''c'']
   \<and> resolvePaths ''/home/u'' (\<lambda>a b. a @ ''/'' @ b) [''~/x'', ''b''] = ''/home/u/x/b''"
  using resolvePaths_join [of "''/home/u''" "\<lambda>a b. a @ ''/'' @ b" "''/etc''" "''~/x''" "[''b'']" "[''c'']"]
  by (simp add: IsAbs_def ExpandHomeDirSafe_def)

subsection \<open>Directory listings\<close>




lemma infoLoop_concat:
  "(\<forall>i. \<not> ctx i) \<Longrightarrow>
   snd (infoLoop ctx chunk i es arr out) = None \<and>
   concat (fst (infoLoop ctx chunk i es arr out)) = concat out @ arr @ entryInfos es"
proof (induction es arbitrary: i arr out)
  case Nil
  then show ?case by (simp add: entryInfos_def)
next
  case (Cons e es)
  then show ?case
    by (cases "deInfo e") (simp_all add: Let_def entryInfos_def)
qed


lemma slice_nth:
  "e \<le> length xs \<Longrightarrow> drop s (take e xs) = map ((!) xs) [s..<e]"
  by (rule nth_equalityI) (simp_all add: min_absorb2)

text \<open>
  Claim C8. When the context is not cancelled and the metadata of the parent can be read,
  streaming a directory without a byte range returns the records of its immediate
  children truncated to the maximum directory size; with a byte range it returns the
  records of the children at the indices from \<open>Start\<close> up to, not including, the
  smaller of \<open>End\<close> and the number of children; and a \<open>Start\<close> at or beyond the
  number of children gives an empty result without an error. Whenever something is
  returned, the synthesized parent entry \<open>..\<close> of size \<open>-1\<close> comes first, unless the
  parent equals the path. (A child whose metadata cannot be read is left out.)
\<close>

theorem remoteStreamFileDir_listing:
  assumes "\<forall>i. \<not> ctx i"
  shows "(All br \<longrightarrow>
           snd (remoteStreamFileDir ctx maxDirSize chunk path parent (Inr es) (Inr pinfo) br) = None \<and>
           concat (fst (remoteStreamFileDir ctx maxDirSize chunk path parent (Inr es) (Inr pinfo) br))
             = dotdot path parent pinfo @ entryInfos (take maxDirSize es))
     \<and> (\<not> All br \<and> 0 \<le> Start br \<and> Start br \<le> End br \<and> Start br < int (length es) \<longrightarrow>
           snd (remoteStreamFileDir ctx maxDirSize chunk path parent (Inr es) (Inr pinfo) br) = None \<and>
           concat (fst (remoteStreamFileDir ctx maxDirSize chunk path parent (Inr es) (Inr pinfo) br))
             = dotdot path parent pinfo @
               entryInfos (map ((!) es) [nat (Start br) ..< nat (min (End br) (int (length es)))]))
     \<and> (\<not> All br \<and> Start br \<ge> int (length es) \<longrightarrow>
           remoteStreamFileDir ctx maxDirSize chunk path parent (Inr es) pres br = ([], None))
     \<and> (parent \<noteq> path \<longrightarrow> dotdot path parent pinfo = [pinfo\<lparr>Name := ''..'', Size := -1\<rparr>])
     \<and> (parent = path \<longrightarrow> dotdot path parent pinfo = [])"
proof (intro conjI impI)
  assume "All br"
  then show "snd (remoteStreamFileDir ctx maxDirSize chunk path parent (Inr es) (Inr pinfo) br) = None"
    using assms by (simp add: remoteStreamFileDir_def infoLoop_concat Let_def)
  from \<open>All br\<close> show "concat (fst (remoteStreamFileDir ctx maxDirSize chunk path parent (Inr es) (Inr pinfo) br))
             = dotdot path parent pinfo @ entryInfos (take maxDirSize es)"
    using assms by (simp add: remoteStreamFileDir_def infoLoop_concat Let_def dotdot_def)
next
  assume a: "\<not> All br \<and> 0 \<le> Start br \<and> Start br \<le> End br \<and> Start br < int (length es)"
  define realEnd where "realEnd = (if End br > int (length es) then int (length es) else End br)"
  have re: "realEnd = min (End br) (int (length es))" "\<not> realEnd < Start br" "nat realEnd \<le> length es"
    using a by (auto simp: realEnd_def)
  have sl: "drop (nat (Start br)) (take (nat realEnd) es) = map ((!) es) [nat (Start br) ..< nat realEnd]"
    using re(3) by (rule slice_nth)
  have eq: "remoteStreamFileDir ctx maxDirSize chunk path parent (Inr es) (Inr pinfo) br
      = infoLoop ctx chunk 0 (map ((!) es) [nat (Start br) ..< nat realEnd]) (dotdot path parent pinfo) []"
    using a re(2) sl unfolding remoteStreamFileDir_def realEnd_def dotdot_def
    by (simp add: Let_def)
  show "snd (remoteStreamFileDir ctx maxDirSize chunk path parent (Inr es) (Inr pinfo) br) = None"
    unfolding eq using assms by (simp add: infoLoop_concat)
  show "concat (fst (remoteStreamFileDir ctx maxDirSize chunk path parent (Inr es) (Inr pinfo) br))
             = dotdot path parent pinfo @
               entryInfos (map ((!) es) [nat (Start br) ..< nat (min (End br) (int (length es)))])"
    unfolding eq using assms by (simp add: infoLoop_concat re(1))
next
  assume "\<not> All br \<and> Start br \<ge> int (length es)"
  then show "remoteStreamFileDir ctx maxDirSize chunk path parent (Inr es) pres br = ([], None)"
    by (simp add: remoteStreamFileDir_def Let_def)
qed (simp_all add: dotdot_def)

theorem remoteStreamFileDir_listing_witness:
  "(\<forall>i. \<not> (\<lambda>_. False) (i::nat))
   \<and> concat (fst (remoteStreamFileDir (\<lambda>_. False) 2 2 ''/a'' ''/''
        (Inr [exEntry ''x'' False 3, exEntry ''y'' True 4, exEntry ''z'' False 5])
        (Inr \<lparr>Name = ''/'', Size = 9, IsDir = True, NotFound = False\<rparr>)
        \<lparr>All = True, Start = 0, End = 0\<rparr>))
      = [\<lparr>Name = ''..'', Size = -1, IsDir = True, NotFound = False\<rparr>,
         \<lparr>Name = ''x'', Size = 3, IsDir = False, NotFound = False\<rparr>,
         \<lparr>Name = ''y'', Size = -1, IsDir = True, NotFound = False\<rparr>]
   \<and> concat (fst (remoteStreamFileDir (\<lambda>_. False) 2 2 ''/a'' ''/''
        (Inr [exEntry ''x'' False 3, exEntry ''y'' True 4, exEntry ''z'' False 5])
        (Inr \<lparr>Name = ''/'', Size = 9, IsDir = True, NotFound = False\<rparr>)
        \<lparr>All = False, Start = 1, End = 7\<rparr>))
      = [\<lparr>Name = ''..'', Size = -1, IsDir = True, NotFound = False\<rparr>,
         \<lparr>Name = ''y'', Size = -1, IsDir = True, NotFound = False\<rparr>,
         \<lparr>Name = ''z'', Size = 5, IsDir = False, NotFound = False\<rparr>]
   \<and> remoteStreamFileDir (\<lambda>_. False) 2 2 ''/a'' ''/''
        (Inr [exEntry ''x'' False 3, exEntry ''y'' True 4, exEntry ''z'' False 5])
        (Inr \<lparr>Name = ''/'', Size = 9, IsDir = True, NotFound = False\<rparr>)
        \<lparr>All = False, Start = 3, End = 7\<rparr> = ([], None)
   \<and> concat (fst (remoteStreamFileDir (\<lambda>_. False) 2 2 ''/'' ''/''
        (Inr [exEntry ''x'' False 3])
        (Inr \<lparr>Name = ''/'', Size = 9, IsDir = True, NotFound = False\<rparr>)
        \<lparr>All = True, Start = 0, End = 0\<rparr>))
      = [\<lparr>Name = ''x'', Size = 3, IsDir = False, NotFound = False\<rparr>]"
  using
    remoteStreamFileDir_listing [of "\<lambda>_. False" "\<lparr>All = True, Start = 0, End = 0\<rparr>" 2 2 "''/a''" "''/''"
      "[exEntry ''x'' False 3, exEntry ''y'' True 4, exEntry ''z'' False 5]"
      "\<lparr>Name = ''/'', Size = 9, IsDir = True, NotFound = False\<rparr>"]
    remoteStreamFileDir_listing [of "\<lambda>_. False" "\<lparr>All = False, Start = 1, End = 7\<rparr>" 2 2 "''/a''" "''/''"
      "[exEntry ''x'' False 3, exEntry ''y'' True 4, exEntry ''z'' False 5]"
      "\<lparr>Name = ''/'', Size = 9, IsDir = True, NotFound = False\<rparr>"]
    remoteStreamFileDir_listing [of "\<lambda>_. False" "\<lparr>All = False, Start = 3, End = 7\<rparr>" 2 2 "''/a''" "''/''"
      "[exEntry ''x'' False 3, exEntry ''y'' True 4, exEntry ''z'' False 5]"
      "\<lparr>Name = ''/'', Size = 9, IsDir = True, NotFound = False\<rparr>"
      "Inr \<lparr>Name = ''/'', Size = 9, IsDir = True, NotFound = False\<rparr>"]
    remoteStreamFileDir_listing [of "\<lambda>_. False" "\<lparr>All = True, Start = 0, End = 0\<rparr>" 2 2 "''/''" "''/''"
      "[exEntry ''x'' False 3]"
      "\<lparr>Name = ''/'', Size = 9, IsDir = True, NotFound = False\<rparr>"]
  by (simp add: dotdot_def entryInfos_def exEntry_def statToFileInfo_def upt_rec)




subsection \<open>The channel adapters\<close>

lemma WriterChan_data:
  "writeAll write w chunks = Inr w' \<Longrightarrow>
   WriterChan H write acc w (recvData chunks @ evs) = WriterChan H write (acc @ concat chunks) w' evs"
proof (induction chunks arbitrary: acc w)
  case Nil
  then show ?case by (simp add: recvData_def)
next
  case (Cons d ds)
  then show ?case by (auto simp: recvData_def split: sum.splits)
qed

text \<open>
  Claim C3. After data packets whose bytes the writer accepted, the terminal checksum
  packet makes \<^verbatim>\<open>WriterChan\<close> call the error callback with the checksum-mismatch error
  exactly when the received checksum differs from the digest of the bytes accumulated;
  when they agree it returns without calling the error callback; so chunks whose digest
  differs from the digest of what was sent are always reported.
\<close>

theorem WriterChan_checksum:
  assumes "writeAll write w chunks = Inr w'"
  shows "(errCalls (WriterChan H write [] w
            (recvData chunks @ Recv (Inr \<lparr>Data = d, Checksum = Some cksum\<rparr>) # evs))
            = [Errorf ''WriterChan: checksum mismatch'' [] None])
          = (cksum \<noteq> H (concat chunks @ d))
     \<and> (cksum = H (concat chunks @ d) \<longrightarrow>
          WriterChan H write [] w (recvData chunks @ Recv (Inr \<lparr>Data = d, Checksum = Some cksum\<rparr>) # evs)
            = \<lparr>writer = w', errCalls = [], returned = True\<rparr>)
     \<and> (H (concat chunks) \<noteq> H (concat sent) \<longrightarrow>
          WriterChan H write [] w
            (recvData chunks @ Recv (Inr \<lparr>Data = [], Checksum = Some (H (concat sent))\<rparr>) # evs)
            = \<lparr>writer = w', errCalls = [Errorf ''WriterChan: checksum mismatch'' [] None],
               returned = True\<rparr>)"
  using WriterChan_data [OF assms, of H "[]"] by auto

theorem WriterChan_checksum_witness:
  "writeAll (\<lambda>w d. Inr (w @ d)) [] [''ab'', ''c''] = (Inr ''abc'' :: error + string)
   \<and> WriterChan rev (\<lambda>w d. Inr (w @ d)) [] []
        (recvData [''ab'', ''c''] @ [Recv (Inr \<lparr>Data = [], Checksum = Some ''cba''\<rparr>)])
      = \<lparr>writer = ''abc'', errCalls = [], returned = True\<rparr>
   \<and> errCalls (WriterChan rev (\<lambda>w d. (Inr (w @ d) :: error + string)) [] []
        (recvData [''ab'', ''c''] @ [Recv (Inr \<lparr>Data = [], Checksum = Some ''cbx''\<rparr>)]))
      = [Errorf ''WriterChan: checksum mismatch'' [] None]
   \<and> rev (concat [''ax'', ''c'']) \<noteq> rev (concat [''ab'', ''c''])
   \<and> WriterChan rev (\<lambda>w d. Inr (w @ d)) [] []
        (recvData [''ax'', ''c''] @ [Recv (Inr \<lparr>Data = [], Checksum = Some (rev (concat [''ab'', ''c'']))\<rparr>)])
      = \<lparr>writer = ''axc'', errCalls = [Errorf ''WriterChan: checksum mismatch'' [] None],
         returned = True\<rparr>"
proof -
  have a: "writeAll (\<lambda>w d. Inr (w @ d)) [] [''ab'', ''c''] = (Inr ''abc'' :: error + string)"
    by simp
  have b: "writeAll (\<lambda>w d. Inr (w @ d)) [] [''ax'', ''c''] = (Inr ''axc'' :: error + string)"
    by simp
  show ?thesis
    using a WriterChan_checksum [OF a, of rev "[]" "''cba''" "[]" "[''ab'', ''c'']"]
      WriterChan_checksum [OF a, of rev "[]" "''cbx''" "[]" "[''ab'', ''c'']"]
      WriterChan_checksum [OF b, of rev "[]" "''cba''" "[]" "[''ab'', ''c'']"]
    by simp
qed

lemma ReaderChan_shape:
  "\<exists>ds tail. ReaderChan H acc evs = map (\<lambda>d. Send (Inr \<lparr>Data = d, Checksum = None\<rparr>)) ds @ tail
     \<and> (tail = [] \<and> \<not> list_ex returns evs
        \<or> tail = [Close, Callback] \<and> list_ex returns evs
        \<or> (\<exists>p. terminal p \<and> tail = [p, Close, Callback]) \<and> list_ex returns evs)"
proof (induction H acc evs rule: ReaderChan.induct)
  case (1 H acc)
  then show ?case by simp
next
  case (2 H acc evs)
  show ?case by (rule exI [of _ "[]"]) simp
next
  case (3 H acc buf err evs)
  show ?case by (rule exI [of _ "[]"]) simp
next
  case (4 H acc buf evs)
  show ?case
  proof (cases "length buf > 0")
    case True
    from 4(1) [OF True] obtain ds tail where
      "ReaderChan H (acc @ buf) evs = map (\<lambda>d. Send (Inr \<lparr>Data = d, Checksum = None\<rparr>)) ds @ tail"
      "tail = [] \<and> \<not> list_ex returns evs
        \<or> tail = [Close, Callback] \<and> list_ex returns evs
        \<or> (\<exists>p. terminal p \<and> tail = [p, Close, Callback]) \<and> list_ex returns evs"
      by blast
    then show ?thesis using True
      by (intro exI [of _ "buf # ds"] exI [of _ tail]) simp
  next
    case False
    with 4(2) show ?thesis by simp
  qed
qed


lemma data_not_terminal:
  "filter terminal (map (\<lambda>d. Send (Inr \<lparr>Data = d, Checksum = None\<rparr>)) ds) = []"
  by (induction ds) simp_all

lemma data_sends:
  "x \<in> set (map (\<lambda>d. Send (Inr \<lparr>Data = d, Checksum = None\<rparr>)) ds) \<Longrightarrow>
   \<not> terminal x \<and> x \<noteq> Close \<and> x \<noteq> Callback"
  by auto

lemma ReaderChan_cancel:
  "ReaderChan H acc (map (\<lambda>d. ReadEv d None) bufs @ CtxDoneEv # rest) =
     map (\<lambda>d. Send (Inr \<lparr>Data = d, Checksum = None\<rparr>)) (filter (\<lambda>d. d \<noteq> []) bufs) @ [Close, Callback]"
  by (induction bufs arbitrary: acc) simp_all

lemma split_after_data:
  "map f ds @ tail = pre @ p # post \<Longrightarrow> (\<And>x. x \<in> set (map f ds) \<Longrightarrow> x \<noteq> p) \<Longrightarrow>
   \<exists>pre'. pre = map f ds @ pre' \<and> tail = pre' @ p # post"
proof (induction ds arbitrary: pre)
  case Nil
  then show ?case by simp
next
  case (Cons d ds)
  show ?case
  proof (cases pre)
    case Nil
    with Cons.prems show ?thesis by auto
  next
    case (Cons x pre2)
    with Cons.prems(1) have "x = f d" "map f ds @ tail = pre2 @ p # post" by simp_all
    moreover from Cons.IH [OF this(2)] Cons.prems(2)
    obtain pre' where "pre2 = map f ds @ pre'" "tail = pre' @ p # post" by auto
    ultimately show ?thesis using Cons by simp
  qed
qed

lemma tail2: "pre @ p # post = [a, b] \<Longrightarrow>
   (pre = [] \<and> p = a \<and> post = [b]) \<or> (pre = [a] \<and> p = b \<and> post = [])"
  by (cases pre; cases "tl pre") auto

lemma tail3: "pre @ p # post = [a, b, c] \<Longrightarrow>
   (pre = [] \<and> p = a \<and> post = [b, c]) \<or> (pre = [a] \<and> p = b \<and> post = [c])
   \<or> (pre = [a, b] \<and> p = c \<and> post = [])"
  by (cases pre; cases "tl pre"; cases "tl (tl pre)") auto

text \<open>
  Claim C5. In every trace of \<^verbatim>\<open>ReaderChan\<close> at most one terminal packet is sent, a
  terminal packet is followed by the close and the callback and by nothing else, the
  channel is closed after the last packet, every run in which the goroutine returns ends
  with the close and the callback, and a run that meets the done context after successful
  reads sends the data packets only, closes and calls the callback.
\<close>

theorem ReaderChan_terminal:
  "length (filter terminal (ReaderChan H acc evs)) \<le> 1
   \<and> (\<forall>pre p post. ReaderChan H acc evs = pre @ p # post \<and> terminal p \<longrightarrow> post = [Close, Callback])
   \<and> (\<forall>pre post. ReaderChan H acc evs = pre @ Close # post \<longrightarrow> post = [Callback])
   \<and> (list_ex returns evs \<longrightarrow> (\<exists>pre. ReaderChan H acc evs = pre @ [Close, Callback]))
   \<and> ReaderChan H acc (map (\<lambda>d. ReadEv d None) bufs @ CtxDoneEv # rest) =
       map (\<lambda>d. Send (Inr \<lparr>Data = d, Checksum = None\<rparr>)) (filter (\<lambda>d. d \<noteq> []) bufs) @ [Close, Callback]"
proof -
  let ?f = "\<lambda>d. Send (Inr \<lparr>Data = d, Checksum = None\<rparr>)"
  obtain ds tail where t: "ReaderChan H acc evs = map ?f ds @ tail"
    and tail: "tail = [] \<and> \<not> list_ex returns evs
        \<or> tail = [Close, Callback] \<and> list_ex returns evs
        \<or> (\<exists>p. terminal p \<and> tail = [p, Close, Callback]) \<and> list_ex returns evs"
    using ReaderChan_shape [of H acc evs] by blast
  have 1: "length (filter terminal (ReaderChan H acc evs)) \<le> 1"
    using tail by (auto simp: t data_not_terminal)
  have 2: "post = [Close, Callback]" if "ReaderChan H acc evs = pre @ p # post" "terminal p" for pre p post
  proof -
    from that have "map ?f ds @ tail = pre @ p # post" by (simp add: t)
    moreover have "\<And>x. x \<in> set (map ?f ds) \<Longrightarrow> x \<noteq> p" using that(2) data_sends by blast
    ultimately obtain pre' where "pre' @ p # post = tail" using split_after_data by metis
    then show ?thesis using tail that(2)
      by (auto dest: tail2 tail3)
  qed
  have 3: "post = [Callback]" if "ReaderChan H acc evs = pre @ Close # post" for pre post
  proof -
    from that have "map ?f ds @ tail = pre @ Close # post" by (simp add: t)
    moreover have "\<And>x. x \<in> set (map ?f ds) \<Longrightarrow> x \<noteq> Close" using data_sends by blast
    ultimately obtain pre' where "pre' @ Close # post = tail" using split_after_data by metis
    then show ?thesis using tail
      by (auto dest: tail2 tail3)
  qed
  have 4: "\<exists>pre. ReaderChan H acc evs = pre @ [Close, Callback]" if "list_ex returns evs"
    using tail that by (auto simp: t)
  show ?thesis using 1 2 3 4 ReaderChan_cancel by blast
qed

theorem ReaderChan_terminal_witness:
  "ReaderChan rev [] [ReadEv ''ab'' None, ReadEv [] None, ReadEv ''c'' None, ReadEv [] (Some EOF)]
     = [Send (Inr \<lparr>Data = ''ab'', Checksum = None\<rparr>), Send (Inr \<lparr>Data = ''c'', Checksum = None\<rparr>)]
       @ Send (Inr \<lparr>Data = [], Checksum = Some ''cba''\<rparr>) # [Close, Callback]
   \<and> terminal (Send (Inr \<lparr>Data = [], Checksum = Some ''cba''\<rparr>))
   \<and> list_ex returns [ReadEv ''ab'' None, ReadEv [] None, ReadEv ''c'' None, ReadEv [] (Some EOF)]
   \<and> length (filter terminal
        (ReaderChan rev [] [ReadEv ''ab'' None, ReadEv [] None, ReadEv ''c'' None, ReadEv [] (Some EOF)])) \<le> 1
   \<and> ReaderChan rev [] (map (\<lambda>d. ReadEv d None) [''ab''] @ CtxDoneEv # [ReadEv ''c'' None])
     = [Send (Inr \<lparr>Data = ''ab'', Checksum = None\<rparr>), Close, Callback]"
  using ReaderChan_terminal [of rev "[]"
      "[ReadEv ''ab'' None, ReadEv [] None, ReadEv ''c'' None, ReadEv [] (Some EOF)]"
      "[''ab'']" "[ReadEv ''c'' None]"]
  by simp

subsection \<open>Streaming a regular file\<close>

lemma take_min_len:
  "take (min (length content - off) chunk) (drop off content) = take chunk (drop off content)"
  by (simp add: min_def)

lemma take_chunk_next:
  assumes "off + min chunk (length content - off) \<le> e"
  shows "take chunk (drop off content)
           @ take (e - (off + min chunk (length content - off)))
               (drop (off + min chunk (length content - off)) content)
         = take (e - off) (drop off content)"
proof (cases "chunk \<le> length content - off")
  case True
  then have m: "min chunk (length content - off) = chunk" by simp
  have "e - off = chunk + (e - (off + chunk))" using assms m by simp
  then have "take (e - off) (drop off content)
      = take chunk (drop off content) @ take (e - (off + chunk)) (drop chunk (drop off content))"
    by (simp only: take_add)
  then show ?thesis by (simp add: m add.commute)
next
  case False
  then have m: "min chunk (length content - off) = length content - off" by simp
  have "length content - off \<le> e - off" using assms m by linarith
  then show ?thesis using False by (simp add: m)
qed

lemma regularLoop_eof:
  "\<not> ctx i \<Longrightarrow> 0 < chunk \<Longrightarrow> length content \<le> off \<Longrightarrow>
   regularLoop ctx chunk path content None br i off filePos out = Some (out, None)"
  by (subst regularLoop.simps) (simp add: fdRead_def Let_def)

lemma regularLoop_step:
  assumes "\<not> ctx i" and "0 < chunk" and "off < length content" and "\<not> All br"
  shows "regularLoop ctx chunk path content None br i off filePos out =
     (if filePos + int (length (take chunk (drop off content))) > End br then
        (if End br - filePos < 0 then Some (out, Some SlicePanic)
         else Some (out @ [take (nat (End br - filePos)) (take chunk (drop off content))], None))
      else if filePos + int (length (take chunk (drop off content))) \<ge> End br then
        Some (out @ [take chunk (drop off content)], None)
      else regularLoop ctx chunk path content None br (Suc i)
             (off + length (take chunk (drop off content)))
             (filePos + int (length (take chunk (drop off content))))
             (out @ [take chunk (drop off content)]))"
  using assms
  by (subst regularLoop.simps) (auto simp add: fdRead_def Let_def take_min_len)

lemma regularLoop_range:
  assumes "\<forall>i. \<not> ctx i" and "0 < chunk" and "\<not> All br"
  shows "int off \<le> End br \<Longrightarrow>
    \<exists>cs. regularLoop ctx chunk path content None br i off (int off) out = Some (out @ cs, None)
       \<and> concat cs = take (nat (End br) - off) (drop off content)"
proof (induction "length content - off" arbitrary: i off out rule: less_induct)
  case less
  define data where "data = take chunk (drop off content)"
  show ?case
  proof (cases "length content \<le> off")
    case True
    then show ?thesis using assms regularLoop_eof [of ctx i chunk content off path br "int off" out]
      by simp
  next
    case False
    then have len: "length data = min chunk (length content - off)" "0 < length data"
      using assms(2) by (simp_all add: data_def)
    have st: "regularLoop ctx chunk path content None br i off (int off) out =
     (if int off + int (length data) > End br then
        (if End br - int off < 0 then Some (out, Some SlicePanic)
         else Some (out @ [take (nat (End br - int off)) data], None))
      else if int off + int (length data) \<ge> End br then Some (out @ [data], None)
      else regularLoop ctx chunk path content None br (Suc i) (off + length data)
             (int off + int (length data)) (out @ [data]))"
      unfolding data_def using assms False by (intro regularLoop_step) simp_all
    show ?thesis
    proof (cases "int off + int (length data) \<ge> End br")
      case True
      then have le: "nat (End br) - off \<le> length data" by linarith
      then have "nat (End br) - off \<le> chunk" using len(1) by simp
      then have tk: "take (nat (End br) - off) data = take (nat (End br) - off) (drop off content)"
        by (simp add: min_absorb1 data_def)
      have n: "nat (End br - int off) = nat (End br) - off" using less.prems by linarith
      show ?thesis
      proof (cases "int off + int (length data) > End br")
        case True
        then show ?thesis using less.prems tk n unfolding st by simp
      next
        case False
        with \<open>int off + int (length data) \<ge> End br\<close> have e: "int off + int (length data) = End br" by simp
        then have "nat (End br) - off = length data" by linarith
        with tk have "data = take (nat (End br) - off) (drop off content)" by simp
        then show ?thesis using e unfolding st by simp
      qed
    next
      case c: False
      then have lt: "int (off + length data) \<le> End br" by simp
      have m: "length content - (off + length data) < length content - off"
        using False len(2) by linarith
      from less.hyps [OF m lt, of "Suc i" "out @ [data]"]
      obtain cs where cs: "regularLoop ctx chunk path content None br (Suc i) (off + length data)
            (int (off + length data)) (out @ [data]) = Some ((out @ [data]) @ cs, None)"
          "concat cs = take (nat (End br) - (off + length data)) (drop (off + length data) content)"
        by blast
      have "off + min chunk (length content - off) \<le> nat (End br)"
        using lt len(1) by linarith
      from take_chunk_next [OF this] have j: "data @ concat cs = take (nat (End br) - off) (drop off content)"
        using cs(2) len(1) by (simp add: data_def)
      have "regularLoop ctx chunk path content None br i off (int off) out = Some ((out @ [data]) @ cs, None)"
        using c cs(1) unfolding st by simp
      then show ?thesis
        using j by (intro exI [of _ "data # cs"]) simp
    qed
  qed
qed

lemma regularLoop_all:
  assumes "\<forall>i. \<not> ctx i" and "0 < chunk" and "All br"
  shows "\<exists>cs. regularLoop ctx chunk path content None br i off filePos out = Some (out @ cs, None)
       \<and> concat cs = drop off content"
proof (induction "length content - off" arbitrary: i off filePos out rule: less_induct)
  case less
  let ?data = "take chunk (drop off content)"
  show ?case
  proof (cases "length content \<le> off")
    case True
    then show ?thesis using assms
      by (subst regularLoop.simps) (simp add: fdRead_def Let_def)
  next
    case False
    then have len: "0 < length ?data" using assms(2) by simp
    have m: "length content - (off + length ?data) < length content - off"
      using False len by linarith
    from less.hyps [OF m, of "Suc i" "filePos + int (length ?data)" "out @ [?data]"]
    obtain cs where cs: "regularLoop ctx chunk path content None br (Suc i) (off + length ?data)
          (filePos + int (length ?data)) (out @ [?data]) = Some ((out @ [?data]) @ cs, None)"
        "concat cs = drop (off + length ?data) content"
      by blast
    have "?data @ drop (length ?data) (drop off content) = drop off content"
      by (metis append_take_drop_id length_take min.commute take_all_iff linorder_le_cases min_def)
    then have j: "?data @ concat cs = drop off content"
      using cs(2) by (simp add: add.commute)
    have step: "regularLoop ctx chunk path content None br i off filePos out =
        regularLoop ctx chunk path content None br (Suc i) (off + length ?data)
          (filePos + int (length ?data)) (out @ [?data])"
      using assms False len
      by (subst regularLoop.simps) (simp add: fdRead_def Let_def take_min_len)
    show ?thesis
      unfolding step cs(1) using j by (intro exI [of _ "?data # cs"]) simp
  qed
qed


text \<open>
  Claim C4, as the code has it. For a byte range with \<open>0 \<le> Start \<le> End\<close> on a file
  longer than \<open>Start\<close>, with a buffer that is not empty, no cancellation and no read
  error, the loop returns without error and the chunks given to the callback, put
  together in order, are the bytes of the file at the offsets from \<open>Start\<close> up to, not
  including, the smaller of \<open>End\<close> and the size of the file: the byte at offset \<open>End\<close>
  itself is not part of it, and nothing beyond it either.
\<close>

theorem remoteStreamFileRegular_range:
  assumes "\<forall>i. \<not> ctx i" and "0 < chunk" and "\<not> All br"
    and "0 \<le> Start br" and "Start br \<le> End br" and "Start br < int (length content)"
  shows "\<exists>chunks. remoteStreamFileRegular ctx chunk path (Inr content) None None br = Some (chunks, None)
     \<and> concat chunks =
         map ((!) content) [nat (Start br) ..< nat (min (End br) (int (length content)))]"
proof -
  let ?s = "nat (Start br)"
  have s: "int ?s = Start br" "int ?s \<le> End br" using assms(4,5) by simp_all
  from regularLoop_range [OF assms(1,2,3) s(2), of path content 0 "[]"]
  obtain cs where cs: "regularLoop ctx chunk path content None br 0 ?s (int ?s) [] = Some (cs, None)"
      "concat cs = take (nat (End br) - ?s) (drop ?s content)"
    by auto
  have r: "remoteStreamFileRegular ctx chunk path (Inr content) None None br = Some (cs, None)"
  proof (cases "Start br > 0")
    case True
    then show ?thesis using cs(1) assms(3) s(1) by (simp add: remoteStreamFileRegular_def)
  next
    case False
    then have "Start br = 0" using assms(4) by simp
    then show ?thesis using cs(1) assms(3) by (simp add: remoteStreamFileRegular_def)
  qed
  let ?e = "nat (min (End br) (int (length content)))"
  have e: "?e \<le> length content" "?e = min (nat (End br)) (length content)" by auto
  have "take (nat (End br) - ?s) (drop ?s content) = drop ?s (take (nat (End br)) content)"
    by (simp add: drop_take)
  also have "\<dots> = drop ?s (take ?e content)"
    unfolding e(2) by (simp add: min_def)
  also have "\<dots> = map ((!) content) [?s ..< ?e]"
    using e(1) by (rule slice_nth)
  finally show ?thesis using r cs(2) by simp
qed

theorem remoteStreamFileRegular_range_witness:
  "(\<forall>i. \<not> (\<lambda>_. False) (i::nat)) \<and> (0::nat) < 4 \<and> \<not> All \<lparr>All = False, Start = 1, End = 7\<rparr>
   \<and> 0 \<le> Start \<lparr>All = False, Start = 1, End = 7\<rparr>
   \<and> Start \<lparr>All = False, Start = 1, End = 7\<rparr> \<le> End \<lparr>All = False, Start = 1, End = 7\<rparr>
   \<and> Start \<lparr>All = False, Start = 1, End = 7\<rparr> < int (length ''abcdefghij'')
   \<and> remoteStreamFileRegular (\<lambda>_. False) 4 ''/f'' (Inr ''abcdefghij'') None None
        \<lparr>All = False, Start = 1, End = 7\<rparr> = Some ([''bcde'', ''fg''], None)
   \<and> (\<exists>chunks. remoteStreamFileRegular (\<lambda>_. False) 4 ''/f'' (Inr ''abcdefghij'') None None
        \<lparr>All = False, Start = 1, End = 7\<rparr> = Some (chunks, None) \<and> concat chunks = ''bcdefg'')"
  using remoteStreamFileRegular_range [of "\<lambda>_. False" 4 "\<lparr>All = False, Start = 1, End = 7\<rparr>"
      "''abcdefghij''" "''/f''"]
  by (simp add: remoteStreamFileRegular_def regularLoop.simps fdRead_def Let_def)

text \<open>
  The span is not closed at \<open>End\<close>: for the range \<open>1-3\<close> of a file of six bytes the
  callback gets the two bytes at the offsets 1 and 2, not the three bytes at 1, 2 and 3.
\<close>

theorem remoteStreamFileRegular_closed_counterexample:
  "remoteStreamFileRegular (\<lambda>_. False) 4 ''/f'' (Inr ''abcdef'') None None
     \<lparr>All = False, Start = 1, End = 3\<rparr> = Some ([''bc''], None)
   \<and> concat [''bc''] \<noteq> map ((!) ''abcdef'') [1 ..< Suc 3]"
  by (simp add: remoteStreamFileRegular_def regularLoop.simps fdRead_def Let_def upt_rec)

subsection \<open>Byte ranges\<close>

lemma leadingBlank_Some:
  "leadingBlank s = Some r \<Longrightarrow> r \<in> set blankRunes \<and> prefix r s \<and> r \<noteq> []"
proof -
  assume a: "leadingBlank s = Some r"
  then have "r \<in> set blankRunes \<and> prefix r s"
    unfolding leadingBlank_def by (auto simp: find_Some_iff)
  moreover have "\<forall>r \<in> set blankRunes. r \<noteq> []" by (simp add: blankRunes_def)
  ultimately show ?thesis by blast
qed

lemma blanks_Nil: "blanks []"
  unfolding blanks_def by (rule exI [of _ "[]"]) simp

lemma blanks_Cons: "r \<in> set blankRunes \<Longrightarrow> blanks sp \<Longrightarrow> blanks (r @ sp)"
  unfolding blanks_def
proof -
  assume r: "r \<in> set blankRunes" and "\<exists>rs. set rs \<subseteq> set blankRunes \<and> sp = concat rs"
  then obtain rs where "set rs \<subseteq> set blankRunes" "sp = concat rs" by blast
  then have "set (r # rs) \<subseteq> set blankRunes \<and> r @ sp = concat (r # rs)" using r by simp
  then show "\<exists>rs. set rs \<subseteq> set blankRunes \<and> r @ sp = concat rs" by blast
qed

lemma token_start:
  assumes "isDigit c \<or> c = CHR ''+'' \<or> c = CHR ''-''"
  shows "SkipSpace (c # cs) = Inr (c # cs)"
proof -
  have n: "(of_char c :: nat) \<in> {43, 45} \<union> {48..57}"
    using assms by (auto simp: isDigit_def)
  have c: "c \<noteq> CHR 0x0D" "c \<noteq> CHR 0x0A" using n by auto
  have "\<forall>r \<in> set blankRunes. \<not> prefix r (c # cs)"
    using n by (auto simp: blankRunes_def)
  then have "leadingBlank (c # cs) = None"
    by (simp add: leadingBlank_def find_None_iff)
  then show ?thesis using c by (simp add: SkipSpace.simps(2))
qed

lemma blankRunes_lead:
  "\<forall>r \<in> set blankRunes. leadingBlank (r @ s) = Some r \<and> r \<noteq> [] \<and> hd r \<noteq> CHR 0x0A
     \<and> (hd r = CHR 0x0D \<longrightarrow> r = [CHR 0x0D])"
  by (simp add: leadingBlank_def blankRunes_def)

lemma skip_rune:
  assumes "r \<in> set blankRunes"
  shows "SkipSpace (r @ s) = SkipSpace s"
proof -
  from assms blankRunes_lead [of s]
  have l: "leadingBlank (r @ s) = Some r" "r \<noteq> []" "hd r \<noteq> CHR 0x0A"
    "hd r = CHR 0x0D \<longrightarrow> r = [CHR 0x0D]"
    by blast+
  then obtain c cs where r: "r = c # cs" by (cases r) auto
  show ?thesis
  proof (cases "c = CHR 0x0D")
    case True
    then have "r = [CHR 0x0D]" using l(4) r by simp
    then show ?thesis using l(1) by (simp add: SkipSpace.simps(2))
  next
    case False
    then show ?thesis using l(1,3) r by (simp add: SkipSpace.simps(2))
  qed
qed

lemma skip_blanks: "blanks sp \<Longrightarrow> SkipSpace (sp @ s) = SkipSpace s"
proof -
  assume "blanks sp"
  then obtain rs where rs: "set rs \<subseteq> set blankRunes" "sp = concat rs"
    unfolding blanks_def by blast
  have "set rs \<subseteq> set blankRunes \<Longrightarrow> SkipSpace (concat rs @ s) = SkipSpace s"
    by (induction rs) (simp_all add: skip_rune)
  then show ?thesis using rs by simp
qed

lemma SkipSpace_inv:
  "SkipSpace inp = Inr s1 \<Longrightarrow> \<exists>sp. blanks sp \<and> inp = sp @ s1"
proof (induction inp rule: SkipSpace.induct)
  case 1
  then show ?case using blanks_Nil by simp
next
  case (2 c cs)
  show ?case
  proof (cases "c = CHR 0x0D \<and> (case cs of [] \<Rightarrow> False | d # _ \<Rightarrow> d = CHR 0x0A)")
    case True
    then have "SkipSpace cs = Inr s1" using 2(3) by (simp add: SkipSpace.simps(2))
    from 2(1) [OF True this] obtain sp where sp: "blanks sp" "cs = sp @ s1" by blast
    have "[CHR 0x0D] \<in> set blankRunes" by (simp add: blankRunes_def)
    then have "blanks ([CHR 0x0D] @ sp)" using sp(1) by (rule blanks_Cons)
    then show ?thesis using sp(2) True by auto
  next
    case False
    then have nl: "c \<noteq> CHR 0x0A" using 2(3) by (auto simp: SkipSpace.simps(2))
    show ?thesis
    proof (cases "leadingBlank (c # cs)")
      case None
      then have "s1 = c # cs" using 2(3) False nl by (simp add: SkipSpace.simps(2))
      then show ?thesis using blanks_Nil by auto
    next
      case (Some r)
      then have sk: "SkipSpace (drop (length r) (c # cs)) = Inr s1"
        using 2(3) False nl by (simp add: SkipSpace.simps(2))
      from 2(2) [OF False nl Some sk] obtain sp where sp: "blanks sp" "drop (length r) (c # cs) = sp @ s1"
        by blast
      have r: "r \<in> set blankRunes" "prefix r (c # cs)" using leadingBlank_Some [OF Some] by simp_all
      then have "c # cs = r @ drop (length r) (c # cs)"
        by (metis append_eq_conv_conj prefix_def)
      then have "c # cs = (r @ sp) @ s1" using sp(2) by simp
      moreover have "blanks (r @ sp)" using r(1) sp(1) by (rule blanks_Cons)
      ultimately show ?thesis by blast
    qed
  qed
qed


lemma digit_not_sign: "isDigit c \<Longrightarrow> c \<noteq> CHR ''+'' \<and> c \<noteq> CHR ''-''"
  by (auto simp: isDigit_def)

lemma ParseInt_number:
  assumes "isSign sg" and "isNumber ds"
  shows "ParseInt (sg @ ds) =
     (if - (2 ^ 63) \<le> signedVal sg ds \<and> signedVal sg ds < 2 ^ 63 then Inr (signedVal sg ds)
      else Inl (Errorf ''value out of range'' [] None))"
proof -
  obtain d dt where d: "ds = d # dt" "isDigit d" "list_all isDigit ds"
    using assms(2) by (cases ds) (auto simp: isNumber_def)
  have u: "ParseUint ds = Inr (digitsVal ds)" using d by (simp add: ParseUint_def)
  consider "sg = []" | "sg = ''+''" | "sg = ''-''" using assms(1) by (auto simp: isSign_def)
  then show ?thesis
  proof cases
    case 1
    then show ?thesis using u d(1) digit_not_sign [OF d(2)]
      by (simp add: ParseInt_def signedVal_def Let_def)
  next
    case 2
    then show ?thesis using u by (simp add: ParseInt_def signedVal_def Let_def)
  next
    case 3
    then show ?thesis using u by (simp add: ParseInt_def signedVal_def Let_def)
  qed
qed

lemma takeWhile_number:
  "isNumber ds \<Longrightarrow> stops rest \<Longrightarrow>
   takeWhile isDigit (ds @ rest) = ds \<and> dropWhile isDigit (ds @ rest) = rest"
proof -
  assume n: "isNumber ds" and r: "stops rest"
  have a: "\<forall>c \<in> set ds. isDigit c" using n by (simp add: isNumber_def list_all_iff)
  have b: "takeWhile isDigit rest = []" "dropWhile isDigit rest = rest"
    using r by (cases rest; simp add: stops_def)+
  show ?thesis using a b by (simp add: takeWhile_append2 dropWhile_append2)
qed

lemma scanInt_number:
  assumes "blanks sp" and "isSign sg" and "isNumber ds" and "stops rest"
  shows "scanInt (sp @ sg @ ds @ rest) =
     (if - (2 ^ 63) \<le> signedVal sg ds \<and> signedVal sg ds < 2 ^ 63
      then Inr (signedVal sg ds, rest)
      else Inl (Errorf ''value out of range'' [] None))"
proof -
  obtain d dt where d: "ds = d # dt" "isDigit d"
    using assms(3) by (cases ds) (auto simp: isNumber_def)
  have tw: "takeWhile isDigit (ds @ rest) = ds" "dropWhile isDigit (ds @ rest) = rest"
    using takeWhile_number [OF assms(3,4)] by simp_all
  have nz: "ds @ rest \<noteq> []" "ds \<noteq> []" using d by simp_all
  have p: "ParseInt (sg @ ds) =
     (if - (2 ^ 63) \<le> signedVal sg ds \<and> signedVal sg ds < 2 ^ 63 then Inr (signedVal sg ds)
      else Inl (Errorf ''value out of range'' [] None))"
    using ParseInt_number [OF assms(2,3)] .
  consider "sg = []" | "sg = ''+''" | "sg = ''-''" using assms(2) by (auto simp: isSign_def)
  then show ?thesis
  proof cases
    case 1
    have sk: "SkipSpace (sp @ sg @ ds @ rest) = Inr (d # dt @ rest)"
      using skip_blanks [OF assms(1), of "d # dt @ rest"] token_start [of d "dt @ rest"] d 1
      by simp
    have tw': "takeWhile isDigit (d # dt @ rest) = d # dt" "dropWhile isDigit (d # dt @ rest) = rest"
      using tw d(1) by simp_all
    show ?thesis
      unfolding scanInt_def sk using p 1 d tw' digit_not_sign [OF d(2)]
      by (simp add: Let_def del: takeWhile.simps dropWhile.simps)
  next
    case 2
    have sk: "SkipSpace (sp @ sg @ ds @ rest) = Inr (CHR ''+'' # ds @ rest)"
      using skip_blanks [OF assms(1), of "CHR ''+'' # ds @ rest"] token_start [of "CHR ''+''" "ds @ rest"] 2
      by simp
    show ?thesis
      unfolding scanInt_def sk using p 2 tw nz
      by (simp add: Let_def)
  next
    case 3
    have sk: "SkipSpace (sp @ sg @ ds @ rest) = Inr (CHR ''-'' # ds @ rest)"
      using skip_blanks [OF assms(1), of "CHR ''-'' # ds @ rest"] token_start [of "CHR ''-''" "ds @ rest"] 3
      by simp
    show ?thesis
      unfolding scanInt_def sk using p 3 tw nz
      by (simp add: Let_def)
  qed
qed

lemma stops_dropWhile: "stops (dropWhile isDigit xs)"
  by (induction xs) (simp_all add: stops_def)

lemma scanInt_inv:
  assumes "scanInt inp = Inr (v, rest)"
  shows "\<exists>sp sg ds. inp = sp @ sg @ ds @ rest \<and> blanks sp \<and> isSign sg \<and> isNumber ds \<and> stops rest
     \<and> v = signedVal sg ds \<and> - (2 ^ 63) \<le> v \<and> v < 2 ^ 63"
proof -
  from assms obtain s1 where s1: "SkipSpace inp = Inr s1"
    by (cases "SkipSpace inp") (simp_all add: scanInt_def)
  then obtain sp where sp: "blanks sp" "inp = sp @ s1" using SkipSpace_inv by blast
  from assms s1 obtain c cs where c: "s1 = c # cs"
    by (cases s1) (simp_all add: scanInt_def)
  define sg where "sg = (if c = CHR ''+'' \<or> c = CHR ''-'' then [c] else [])"
  define s2 where "s2 = (if c = CHR ''+'' \<or> c = CHR ''-'' then cs else s1)"
  define ds where "ds = takeWhile isDigit s2"
  have e: "s1 = sg @ s2" by (simp add: sg_def s2_def c)
  have sgn: "isSign sg" by (auto simp: sg_def isSign_def)
  have u: "scanInt inp =
      (if s2 = [] then Inl (Errorf ''unexpected EOF'' [] None)
       else if ds = [] then Inl (Errorf ''expected integer'' [] None)
       else (case ParseInt (sg @ ds) of Inl err \<Rightarrow> Inl err
             | Inr v \<Rightarrow> Inr (v, dropWhile isDigit s2)))"
    unfolding scanInt_def s1 c sg_def s2_def ds_def by (simp add: Let_def c)
  have ne: "ds \<noteq> []" using assms u by (auto split: if_splits)
  have num: "isNumber ds"
    using ne by (auto simp: isNumber_def ds_def list_all_iff dest: set_takeWhileD)
  obtain v' where p: "ParseInt (sg @ ds) = Inr v'"
    using assms u ne by (cases "ParseInt (sg @ ds)") (auto split: if_splits)
  then have r: "v = v'" "rest = dropWhile isDigit s2"
    using assms u ne by (auto split: if_splits)
  have st: "stops rest"
    unfolding r(2) by (rule stops_dropWhile)
  have s2e: "s2 = ds @ rest" by (simp add: ds_def r(2))
  have pv: "v' = signedVal sg ds \<and> - (2 ^ 63) \<le> v' \<and> v' < 2 ^ 63"
    using p ParseInt_number [OF sgn num] by (auto split: if_splits)
  have "inp = sp @ sg @ ds @ rest" using sp(2) e s2e by simp
  then show ?thesis using sp(1) sgn num st pv r(1) by blast
qed


lemma stops_minus: "stops (''-'' @ s)"
  by (simp add: stops_def isDigit_def)

lemma Sscanf_number:
  assumes "blanks sp1" "isSign sg1" "isNumber ds1" "blanks sp2" "isSign sg2" "isNumber ds2"
    and "stops rest"
    and "- (2 ^ 63) \<le> signedVal sg1 ds1" "signedVal sg1 ds1 < 2 ^ 63"
    and "- (2 ^ 63) \<le> signedVal sg2 ds2" "signedVal sg2 ds2 < 2 ^ 63"
  shows "Sscanf_d_d (sp1 @ sg1 @ ds1 @ ''-'' @ sp2 @ sg2 @ ds2 @ rest)
     = Inr (signedVal sg1 ds1, signedVal sg2 ds2)"
proof -
  have 1: "scanInt (sp1 @ sg1 @ ds1 @ ''-'' @ sp2 @ sg2 @ ds2 @ rest)
      = Inr (signedVal sg1 ds1, ''-'' @ sp2 @ sg2 @ ds2 @ rest)"
    using scanInt_number [OF assms(1,2,3) stops_minus, of "sp2 @ sg2 @ ds2 @ rest"] assms(8,9)
    by simp
  have 2: "scanInt (sp2 @ sg2 @ ds2 @ rest) = Inr (signedVal sg2 ds2, rest)"
    using scanInt_number [OF assms(4,5,6,7)] assms(10,11) by simp
  show ?thesis unfolding Sscanf_d_d_def 1 using 2 by simp
qed

lemma Sscanf_inv:
  assumes "Sscanf_d_d str = Inr (a, b)"
  shows "rangeForm str a b \<and> - (2 ^ 63) \<le> a \<and> a < 2 ^ 63 \<and> - (2 ^ 63) \<le> b \<and> b < 2 ^ 63"
proof -
  from assms obtain a' s1 where 1: "scanInt str = Inr (a', s1)"
    by (cases "scanInt str") (auto simp: Sscanf_d_d_def)
  from assms 1 obtain s2 where s1: "s1 = CHR ''-'' # s2"
    by (cases s1) (auto simp: Sscanf_d_d_def split: if_splits)
  from assms 1 s1 obtain b' s3 where 2: "scanInt s2 = Inr (b', s3)"
    by (cases "scanInt s2") (auto simp: Sscanf_d_d_def)
  from assms 1 s1 2 have ab: "a' = a" "b' = b" by (simp_all add: Sscanf_d_d_def)
  from scanInt_inv [OF 1] obtain sp1 sg1 ds1 where
    d1: "str = sp1 @ sg1 @ ds1 @ s1" "blanks sp1" "isSign sg1" "isNumber ds1"
        "a' = signedVal sg1 ds1" "- (2 ^ 63) \<le> a'" "a' < 2 ^ 63"
    by blast
  from scanInt_inv [OF 2] obtain sp2 sg2 ds2 where
    d2: "s2 = sp2 @ sg2 @ ds2 @ s3" "blanks sp2" "isSign sg2" "isNumber ds2" "stops s3"
        "b' = signedVal sg2 ds2" "- (2 ^ 63) \<le> b'" "b' < 2 ^ 63"
    by blast
  have "str = sp1 @ sg1 @ ds1 @ ''-'' @ sp2 @ sg2 @ ds2 @ s3" using d1(1) s1 d2(1) by simp
  then have "rangeForm str a b"
    unfolding rangeForm_def using d1(2-5) d2(2-6) ab by blast
  then show ?thesis using d1(6,7) d2(7,8) ab by simp
qed

lemma parseByteRange_accepts:
  assumes "str \<noteq> []"
  shows "(parseByteRange str = Inr br) =
     (\<exists>s e. rangeForm str s e \<and> 0 \<le> s \<and> s \<le> e \<and> e < 2 ^ 63
        \<and> br = \<lparr>All = False, Start = s, End = e\<rparr>)"
proof
  assume p: "parseByteRange str = Inr br"
  then obtain a b where ab: "Sscanf_d_d str = Inr (a, b)"
    using assms by (cases "Sscanf_d_d str") (auto simp: parseByteRange_def)
  then have c: "0 \<le> a" "a \<le> b" "br = \<lparr>All = False, Start = a, End = b\<rparr>"
    using p assms by (auto simp: parseByteRange_def split: if_splits)
  from Sscanf_inv [OF ab] have "rangeForm str a b" "b < 2 ^ 63" by simp_all
  with c show "\<exists>s e. rangeForm str s e \<and> 0 \<le> s \<and> s \<le> e \<and> e < 2 ^ 63
        \<and> br = \<lparr>All = False, Start = s, End = e\<rparr>" by blast
next
  assume "\<exists>s e. rangeForm str s e \<and> 0 \<le> s \<and> s \<le> e \<and> e < 2 ^ 63
        \<and> br = \<lparr>All = False, Start = s, End = e\<rparr>"
  then obtain s e where f: "rangeForm str s e" and c: "0 \<le> s" "s \<le> e" "e < 2 ^ 63"
    and br: "br = \<lparr>All = False, Start = s, End = e\<rparr>" by blast
  from f obtain sp1 sg1 ds1 sp2 sg2 ds2 rest where
    d: "str = sp1 @ sg1 @ ds1 @ ''-'' @ sp2 @ sg2 @ ds2 @ rest"
       "blanks sp1" "isSign sg1" "isNumber ds1" "blanks sp2" "isSign sg2" "isNumber ds2"
       "stops rest" "s = signedVal sg1 ds1" "e = signedVal sg2 ds2"
    unfolding rangeForm_def by blast
  have r: "- (2 ^ 63) \<le> signedVal sg1 ds1" "signedVal sg1 ds1 < 2 ^ 63"
     "- (2 ^ 63) \<le> signedVal sg2 ds2" "signedVal sg2 ds2 < 2 ^ 63"
    using c d(9,10) by simp_all
  have "Sscanf_d_d str = Inr (s, e)"
    unfolding d(1,9,10) using Sscanf_number [OF d(2-8) r] .
  then show "parseByteRange str = Inr br"
    using assms c br by (simp add: parseByteRange_def)
qed

lemma parseByteRange_error:
  "parseByteRange str = Inl err \<Longrightarrow> err = Errorf ''invalid byte range'' [] None"
  by (auto simp: parseByteRange_def split: sum.splits if_splits prod.splits)

lemma digit_char: "d < 10 \<Longrightarrow> of_char (char_of (48 + d)) = (48 + d :: nat)"
  by simp

lemma isDigit_char: "d < 10 \<Longrightarrow> isDigit (char_of (48 + d :: nat))"
  by (simp add: isDigit_def)

lemma decimal_digits: "list_all isDigit (decimal n) \<and> decimal n \<noteq> []"
proof (induction n rule: decimal.induct)
  case (1 n)
  show ?case
  proof (cases "n < 10")
    case True
    then show ?thesis by (subst decimal.simps, subst (2) decimal.simps) (simp add: isDigit_char)
  next
    case False
    have "n mod 10 < 10" by simp
    then have "isDigit (char_of (48 + n mod 10))" by (rule isDigit_char)
    with 1 False show ?thesis
      by (subst decimal.simps, subst (2) decimal.simps) simp
  qed
qed

lemma decimal_value: "digitsVal (decimal n) = n"
  unfolding digitsVal_def
proof (induction n rule: decimal.induct)
  case (1 n)
  show ?case
  proof (cases "n < 10")
    case True
    then show ?thesis by (subst decimal.simps) simp
  next
    case False
    have "n mod 10 < 10" by simp
    then have "of_char (char_of (48 + n mod 10)) = (48 + n mod 10 :: nat)" by (rule digit_char)
    with 1 False show ?thesis
      by (subst decimal.simps) simp
  qed
qed

lemma rangeForm_rangeString:
  "stops rest \<Longrightarrow> rangeForm (rangeString s e @ rest) (int s) (int e)"
proof -
  assume st: "stops rest"
  have n: "isNumber (decimal s)" "isNumber (decimal e)"
    using decimal_digits by (simp_all add: isNumber_def)
  have v: "int s = signedVal [] (decimal s)" "int e = signedVal [] (decimal e)"
    by (simp_all add: signedVal_def decimal_value)
  have sg: "isSign []" by (simp add: isSign_def)
  have "rangeString s e @ rest = [] @ [] @ decimal s @ ''-'' @ [] @ [] @ decimal e @ rest"
    by (simp add: rangeString_def)
  then show ?thesis
    unfolding rangeForm_def using blanks_Nil sg n st v by blast
qed

lemma rangeString_nonempty: "rangeString s e @ rest \<noteq> []"
  by (simp add: rangeString_def)

lemmas scan_eval = parseByteRange_def Sscanf_d_d_def scanInt_def ParseInt_def ParseUint_def
  digitsVal_def isDigit_def SkipSpace.simps(2) leadingBlank_def blankRunes_def Let_def

text \<open>
  Claim C6, as the code has it. The empty string is the whole file. A string that is
  not empty gives bounds exactly when it starts with a range as \<open>rangeForm\<close> describes
  it, with \<open>0 \<le> start \<le> end < 2 ^ 63\<close>, and the bounds are then the values written: blanks
  before a number, a sign, and any text after the second number that cannot continue it
  are accepted, and nothing else is. In particular the range written with the decimal
  numerals of \<open>n \<le> m < 2 ^ 63\<close> gives the bounds \<open>n\<close> and \<open>m\<close>. Every other outcome is
  the malformed-range error.
\<close>

theorem parseByteRange_form:
  "parseByteRange [] = Inr \<lparr>All = True, Start = 0, End = 0\<rparr>
   \<and> (str \<noteq> [] \<longrightarrow>
        (parseByteRange str = Inr br) =
        (\<exists>s e. rangeForm str s e \<and> 0 \<le> s \<and> s \<le> e \<and> e < 2 ^ 63
           \<and> br = \<lparr>All = False, Start = s, End = e\<rparr>))
   \<and> (n \<le> m \<and> m < 2 ^ 63 \<and> stops rest \<longrightarrow>
        parseByteRange (rangeString n m @ rest) = Inr \<lparr>All = False, Start = int n, End = int m\<rparr>)
   \<and> (parseByteRange str = Inl err \<longrightarrow> err = Errorf ''invalid byte range'' [] None)"
proof -
  have 1: "parseByteRange [] = Inr \<lparr>All = True, Start = 0, End = 0\<rparr>"
    by (simp add: parseByteRange_def)
  have 2: "(parseByteRange str = Inr br) =
        (\<exists>s e. rangeForm str s e \<and> 0 \<le> s \<and> s \<le> e \<and> e < 2 ^ 63
           \<and> br = \<lparr>All = False, Start = s, End = e\<rparr>)" if "str \<noteq> []"
    using that by (rule parseByteRange_accepts)
  have 3: "parseByteRange (rangeString n m @ rest) = Inr \<lparr>All = False, Start = int n, End = int m\<rparr>"
    if a: "n \<le> m \<and> m < 2 ^ 63 \<and> stops rest"
  proof -
    have "rangeForm (rangeString n m @ rest) (int n) (int m)"
      using a rangeForm_rangeString by blast
    moreover have "0 \<le> int n" "int n \<le> int m" "int m < 2 ^ 63" using a by simp_all
    ultimately show ?thesis
      using parseByteRange_accepts [OF rangeString_nonempty, of n m rest
          "\<lparr>All = False, Start = int n, End = int m\<rparr>"]
      by blast
  qed
  have 4: "err = Errorf ''invalid byte range'' [] None" if "parseByteRange str = Inl err"
    using that by (rule parseByteRange_error)
  show ?thesis using 1 2 3 4 by blast
qed

theorem parseByteRange_form_witness:
  "''1-5xyz'' \<noteq> []
   \<and> parseByteRange ''1-5xyz'' = Inr \<lparr>All = False, Start = 1, End = 5\<rparr>
   \<and> (\<exists>s e. rangeForm ''1-5xyz'' s e \<and> 0 \<le> s \<and> s \<le> e \<and> e < 2 ^ 63
         \<and> \<lparr>All = False, Start = 1, End = 5\<rparr> = \<lparr>All = False, Start = s, End = e\<rparr>)
   \<and> (17::nat) \<le> 4052 \<and> (4052::nat) < 2 ^ 63 \<and> stops ''; x''
   \<and> parseByteRange ''17-4052; x'' = Inr \<lparr>All = False, Start = 17, End = 4052\<rparr>
   \<and> parseByteRange ''5-3'' = Inl (Errorf ''invalid byte range'' [] None)"
  using parseByteRange_form [of "''1-5xyz''" "\<lparr>All = False, Start = 1, End = 5\<rparr>" 17 4052 "''; x''"
      "Errorf ''invalid byte range'' [] None"]
  by (simp add: scan_eval stops_def rangeString_def decimal.simps)

text \<open>
  Acceptance is not limited to strings that are exactly of the form \<open>start-end\<close>: text
  after the second number is ignored, also an underscore and what follows it; blanks
  before a number, the no-break space among them, and a sign are accepted; and a string
  of that form is rejected when a bound does not fit 64 bits.
\<close>

theorem parseByteRange_exact_counterexample:
  "parseByteRange ''1-5xyz'' = Inr \<lparr>All = False, Start = 1, End = 5\<rparr>
   \<and> parseByteRange '' +1- 5'' = Inr \<lparr>All = False, Start = 1, End = 5\<rparr>
   \<and> parseByteRange ''1-2_0'' = Inr \<lparr>All = False, Start = 1, End = 2\<rparr>
   \<and> parseByteRange ([CHR 0xC2, CHR 0xA0] @ ''1-5'') = Inr \<lparr>All = False, Start = 1, End = 5\<rparr>
   \<and> parseByteRange ''0-9223372036854775808'' = Inl (Errorf ''invalid byte range'' [] None)"
  by (simp add: scan_eval)

subsection \<open>The handles of the tar stream\<close>

text \<open>
  Claim C9 fails on the code. For an archive of a single file the source opens the file
  and never closes it: after the command has ended, the cleanup callback included, the
  file is still open, when the copy into the tar writer succeeds as well as when it
  fails. The pipe and the tar writer are closed by the callback.
\<close>

theorem RemoteTarStreamCommand_leaks_file:
  "stillOpen [] (RemoteTarStreamCommand None None ''/tmp/a.txt'' (exTarFile None) True) = [SrcFile]
   \<and> stillOpen [] (RemoteTarStreamCommand None None ''/tmp/a.txt'' (exTarFile (Some (IOError ''write''))) True)
       = [SrcFile]"
  by (simp add: RemoteTarStreamCommand_def tarWorker_def exTarFile_def)

subsection \<open>The copy destination\<close>

lemma map_of_remove: "map_of (filter (\<lambda>(q, n). q \<noteq> p) fs) p = None"
  by (induction fs) auto

lemma map_of_removeAll: "prefix p q \<Longrightarrow> map_of (filter (\<lambda>(q, n). \<not> prefix p q) fs) q = None"
  by (induction fs) auto

lemma os_Remove_gone: "os_Remove fs p = Inr fs' \<Longrightarrow> map_of fs' p = None"
  by (auto simp: os_Remove_def map_of_remove split: sum.splits node.splits if_splits)

lemma os_RemoveAll_gone: "os_RemoveAll fs p = Inr fs' \<Longrightarrow> prefix p q \<Longrightarrow> map_of fs' q = None"
  by (auto simp: os_RemoveAll_def map_of_removeAll)

lemma writeNode_there: "map_of (writeNode fs p n) p = Some n"
  by (simp add: writeNode_def)

lemma mkdirStep_keeps:
  "mkdirStep mode (Inr fs) q = Inr fs' \<Longrightarrow> map_of fs r = Some (Dir m) \<Longrightarrow> map_of fs' r = Some (Dir m)"
  by (auto split: option.splits node.splits simp: map_add_def)

lemma mkdirStep_makes:
  "mkdirStep mode (Inr fs) q = Inr fs' \<Longrightarrow> map_of fs q = None \<Longrightarrow> map_of fs' q = Some (Dir mode)"
  by (auto split: option.splits node.splits simp: map_add_def)

lemma mkdirStep_Inl: "foldl (mkdirStep mode) (Inl err) qs = Inl err"
  by (induction qs) simp_all

lemma mkdir_fold_keeps:
  "foldl (mkdirStep mode) (Inr fs) qs = Inr fs' \<Longrightarrow> map_of fs r = Some (Dir m) \<Longrightarrow>
   map_of fs' r = Some (Dir m)"
proof (induction qs arbitrary: fs)
  case Nil
  then show ?case by simp
next
  case (Cons q qs)
  show ?case
  proof (cases "mkdirStep mode (Inr fs) q")
    case (Inl e)
    with Cons.prems(1) show ?thesis by (simp add: mkdirStep_Inl)
  next
    case (Inr fs1)
    with Cons.prems have "foldl (mkdirStep mode) (Inr fs1) qs = Inr fs'" by simp
    moreover have "map_of fs1 r = Some (Dir m)" using Inr Cons.prems(2) by (rule mkdirStep_keeps)
    ultimately show ?thesis by (rule Cons.IH)
  qed
qed

lemma mkdirStep_other:
  "mkdirStep mode (Inr fs) q = Inr fs' \<Longrightarrow> r \<noteq> q \<Longrightarrow> map_of fs' r = map_of fs r"
  by (auto split: option.splits node.splits simp: map_add_def)

lemma mkdir_fold_other:
  "foldl (mkdirStep mode) (Inr fs) qs = Inr fs' \<Longrightarrow> r \<notin> set qs \<Longrightarrow> map_of fs' r = map_of fs r"
proof (induction qs arbitrary: fs)
  case Nil
  then show ?case by simp
next
  case (Cons q qs)
  show ?case
  proof (cases "mkdirStep mode (Inr fs) q")
    case (Inl e)
    with Cons.prems(1) show ?thesis by (simp add: mkdirStep_Inl)
  next
    case (Inr fs1)
    with Cons.prems have "foldl (mkdirStep mode) (Inr fs1) qs = Inr fs'" by simp
    then have "map_of fs' r = map_of fs1 r" using Cons.prems(2) by (intro Cons.IH) simp_all
    moreover have "r \<noteq> q" using Cons.prems(2) by simp
    then have "map_of fs1 r = map_of fs r" using Inr by (intro mkdirStep_other)
    ultimately show ?thesis by simp
  qed
qed

lemma os_MkdirAll_made:
  assumes "os_MkdirAll umask fs p perm = Inr fs'" and "map_of fs p = None"
  shows "map_of fs' p = Some (Dir (applyUmask umask perm))"
proof -
  let ?mode = "applyUmask umask perm"
  have pr: "prefixes p = butlast (prefixes p) @ [p]"
    using append_butlast_last_id [of "prefixes p"] by simp
  have "distinct (butlast (prefixes p) @ [p])"
    using distinct_prefixes [of p] pr by simp
  then have notin: "p \<notin> set (butlast (prefixes p))" by simp
  have f: "mkdirStep ?mode (foldl (mkdirStep ?mode) (Inr fs) (butlast (prefixes p))) p = Inr fs'"
    using assms(1) unfolding os_MkdirAll_def by (subst (asm) pr) simp
  then obtain fs1 where 1: "foldl (mkdirStep ?mode) (Inr fs) (butlast (prefixes p)) = Inr fs1"
    by (cases "foldl (mkdirStep ?mode) (Inr fs) (butlast (prefixes p))") simp_all
  have "map_of fs1 p = None"
    using mkdir_fold_other [OF 1 notin] assms(2) by simp
  with f show ?thesis unfolding 1 by (rule mkdirStep_makes)
qed

lemma os_Stat_absent: "os_Stat fs p = Inl ErrNotExist \<Longrightarrow> map_of fs p = None"
  by (auto simp: os_Stat_def split: if_splits option.splits)

lemmas exdefs = exFs_def exFile_def exDir_def os_Stat_def os_Remove_def os_RemoveAll_def
  os_MkdirAll_def os_Create_def writeNode_def writeContent_def file_Chmod_def applyUmask_def
  copyEntry_def Let_def pathString_def

text \<open>
  One evaluation of the body of the loop, row by row of the table: what it does when the
  calls it makes succeed.
\<close>

lemma copyEntry_rows:
  "(os_Stat fs (dest @ teName next) = Inl ErrNotExist \<and> teIsDir next
      \<and> os_MkdirAll umask fs (dest @ teName next) (teMode next) = Inr fs' \<longrightarrow>
        copyEntry umask merge overwrite dest next fs = (fs', Inr (Some ErrNotExist))
        \<and> map_of fs' (dest @ teName next) = Some (Dir (applyUmask umask (teMode next))))
   \<and> (os_Stat fs (dest @ teName next) = Inl ErrNotExist \<and> \<not> teIsDir next
      \<and> os_Create umask fs (dest @ teName next) = Inr fs' \<and> teCopyErr next = None \<longrightarrow>
        copyEntry umask merge overwrite dest next fs =
          (file_Chmod (writeContent fs' (dest @ teName next) (tePayload next))
             (dest @ teName next) (teMode next), Inr (Some ErrNotExist)))
   \<and> (os_Stat fs (dest @ teName next) = Inr (Dir m) \<and> \<not> teIsDir next \<and> \<not> overwrite \<longrightarrow>
        copyEntry umask merge overwrite dest next fs =
          (fs, Inl (Errorf ''cannot create directory %q, file exists at path, overwrite not specified''
                      [pathString (dest @ teName next)] None)))
   \<and> (os_Stat fs (dest @ teName next) = Inr (Dir m) \<and> \<not> teIsDir next \<and> overwrite
      \<and> os_Remove fs (dest @ teName next) = Inr fs' \<longrightarrow>
        copyEntry umask merge overwrite dest next fs = (fs', Inr None)
        \<and> map_of fs' (dest @ teName next) = None)
   \<and> (os_Stat fs (dest @ teName next) = Inr (Dir m) \<and> \<not> teIsDir next \<and> overwrite
      \<and> os_Remove fs (dest @ teName next) = Inl e \<longrightarrow>
        copyEntry umask merge overwrite dest next fs =
          (fs, Inl (Errorf ''cannot remove file %q: %w'' [pathString (dest @ teName next)] (Some e))))
   \<and> (os_Stat fs (dest @ teName next) = Inr (Dir m) \<and> teIsDir next \<and> \<not> merge \<and> \<not> overwrite \<longrightarrow>
        copyEntry umask merge overwrite dest next fs =
          (fs, Inl (Errorf ''cannot create directory %q, directory exists at path, neither overwrite nor merge specified''
                      [pathString (dest @ teName next)] None)))
   \<and> (os_Stat fs (dest @ teName next) = Inr (Dir m) \<and> teIsDir next \<and> overwrite
      \<and> os_RemoveAll fs (dest @ teName next) = Inr fs' \<longrightarrow>
        copyEntry umask merge overwrite dest next fs = (fs', Inr None)
        \<and> map_of fs' (dest @ teName next) = None)
   \<and> (os_Stat fs (dest @ teName next) = Inr (Dir m) \<and> teIsDir next \<and> merge \<and> \<not> overwrite \<longrightarrow>
        copyEntry umask merge overwrite dest next fs = (fs, Inr None))
   \<and> (os_Stat fs (dest @ teName next) = Inr (File c m) \<and> teIsDir next \<and> \<not> overwrite \<longrightarrow>
        copyEntry umask merge overwrite dest next fs =
          (fs, Inl (Errorf ''cannot create file %q, directory exists at path, overwrite not specified''
                      [pathString (dest @ teName next)] None)))
   \<and> (os_Stat fs (dest @ teName next) = Inr (File c m) \<and> teIsDir next \<and> overwrite
      \<and> os_RemoveAll fs (dest @ teName next) = Inr fs' \<longrightarrow>
        copyEntry umask merge overwrite dest next fs = (fs', Inr None)
        \<and> map_of fs' (dest @ teName next) = None)
   \<and> (os_Stat fs (dest @ teName next) = Inr (File c m) \<and> \<not> teIsDir next \<and> \<not> overwrite \<longrightarrow>
        copyEntry umask merge overwrite dest next fs =
          (fs, Inl (Errorf ''cannot create file %q, file exists at path, overwrite not specified''
                      [pathString (dest @ teName next)] None)))
   \<and> (os_Stat fs (dest @ teName next) = Inr (File c m) \<and> \<not> teIsDir next \<and> overwrite
      \<and> os_Remove fs (dest @ teName next) = Inr fs' \<longrightarrow>
        copyEntry umask merge overwrite dest next fs = (fs', Inr None)
        \<and> map_of fs' (dest @ teName next) = None)"
proof -
  let ?p = "dest @ teName next"
  have r1: "copyEntry umask merge overwrite dest next fs = (fs', Inr (Some ErrNotExist))
        \<and> map_of fs' ?p = Some (Dir (applyUmask umask (teMode next)))"
    if "os_Stat fs ?p = Inl ErrNotExist \<and> teIsDir next \<and> os_MkdirAll umask fs ?p (teMode next) = Inr fs'"
    using that os_MkdirAll_made [of umask fs ?p "teMode next" fs'] os_Stat_absent [of fs ?p]
    by (simp add: copyEntry_def Let_def)
  have r2: "copyEntry umask merge overwrite dest next fs =
          (file_Chmod (writeContent fs' ?p (tePayload next)) ?p (teMode next), Inr (Some ErrNotExist))"
    if "os_Stat fs ?p = Inl ErrNotExist \<and> \<not> teIsDir next \<and> os_Create umask fs ?p = Inr fs'
        \<and> teCopyErr next = None"
    using that by (simp add: copyEntry_def Let_def)
  have rm: "copyEntry umask merge overwrite dest next fs = (fs', Inr None) \<and> map_of fs' ?p = None"
    if "os_Stat fs ?p = Inr (Dir m) \<and> \<not> teIsDir next \<and> overwrite \<and> os_Remove fs ?p = Inr fs'
        \<or> os_Stat fs ?p = Inr (File c m) \<and> \<not> teIsDir next \<and> overwrite \<and> os_Remove fs ?p = Inr fs'"
    using that os_Remove_gone [of fs ?p fs'] by (auto simp: copyEntry_def Let_def)
  have re: "copyEntry umask merge overwrite dest next fs =
          (fs, Inl (Errorf ''cannot remove file %q: %w'' [pathString ?p] (Some e)))"
    if "os_Stat fs ?p = Inr (Dir m) \<and> \<not> teIsDir next \<and> overwrite \<and> os_Remove fs ?p = Inl e"
    using that by (simp add: copyEntry_def Let_def)
  have ra: "copyEntry umask merge overwrite dest next fs = (fs', Inr None) \<and> map_of fs' ?p = None"
    if "os_Stat fs ?p = Inr (Dir m) \<and> teIsDir next \<and> overwrite \<and> os_RemoveAll fs ?p = Inr fs'
        \<or> os_Stat fs ?p = Inr (File c m) \<and> teIsDir next \<and> overwrite \<and> os_RemoveAll fs ?p = Inr fs'"
    using that os_RemoveAll_gone [of fs ?p fs' ?p] by (auto simp: copyEntry_def Let_def)
  have fails: "os_Stat fs ?p = Inr (Dir m) \<and> \<not> teIsDir next \<and> \<not> overwrite \<longrightarrow>
        copyEntry umask merge overwrite dest next fs =
          (fs, Inl (Errorf ''cannot create directory %q, file exists at path, overwrite not specified''
                      [pathString ?p] None))"
      "os_Stat fs ?p = Inr (Dir m) \<and> teIsDir next \<and> \<not> merge \<and> \<not> overwrite \<longrightarrow>
        copyEntry umask merge overwrite dest next fs =
          (fs, Inl (Errorf ''cannot create directory %q, directory exists at path, neither overwrite nor merge specified''
                      [pathString ?p] None))"
      "os_Stat fs ?p = Inr (Dir m) \<and> teIsDir next \<and> merge \<and> \<not> overwrite \<longrightarrow>
        copyEntry umask merge overwrite dest next fs = (fs, Inr None)"
      "os_Stat fs ?p = Inr (File c m) \<and> teIsDir next \<and> \<not> overwrite \<longrightarrow>
        copyEntry umask merge overwrite dest next fs =
          (fs, Inl (Errorf ''cannot create file %q, directory exists at path, overwrite not specified''
                      [pathString ?p] None))"
      "os_Stat fs ?p = Inr (File c m) \<and> \<not> teIsDir next \<and> \<not> overwrite \<longrightarrow>
        copyEntry umask merge overwrite dest next fs =
          (fs, Inl (Errorf ''cannot create file %q, file exists at path, overwrite not specified''
                      [pathString ?p] None))"
    by (simp_all add: copyEntry_def Let_def)
  show ?thesis
    using r1 r2 rm re ra fails by blast
qed

text \<open>
  As the command runs, the loop evaluates the same entry again after a removal, so that
  with overwrite the four kinds of replacement end as the table says when the removal
  succeeds: a file over a file, a directory over a file, a file over an empty directory
  and a directory over a directory that holds a file. The umask is \<open>022\<close>.
\<close>

lemma copy_overwrite_rows:
  "RemoteFileCopyCommand (Suc (Suc fuel)) 18 \<lparr>Recursive = True, Merge = True, Overwrite = True\<rparr> [''dst'']
       [exFile ''a'' ''new''] exFs
     = ([([''dst'', ''a''], File ''new'' 384), ([], Dir 493), ([''dst''], Dir 493),
         ([''dst'', ''sub''], Dir 493), ([''dst'', ''sub'', ''f''], File ''x'' 420),
         ([''dst'', ''empty''], Dir 493)],
        Returned None)
   \<and> RemoteFileCopyCommand (Suc (Suc fuel)) 18 \<lparr>Recursive = True, Merge = True, Overwrite = True\<rparr> [''dst'']
       [exDir ''a''] exFs
     = ([([], Dir 493), ([''dst''], Dir 493), ([''dst'', ''sub''], Dir 493),
         ([''dst'', ''sub'', ''f''], File ''x'' 420), ([''dst'', ''empty''], Dir 493),
         ([''dst'', ''a''], Dir 448)],
        Returned None)
   \<and> RemoteFileCopyCommand (Suc (Suc fuel)) 18 \<lparr>Recursive = True, Merge = True, Overwrite = True\<rparr> [''dst'']
       [exFile ''empty'' ''new''] exFs
     = ([([''dst'', ''empty''], File ''new'' 384), ([], Dir 493), ([''dst''], Dir 493),
         ([''dst'', ''a''], File ''old'' 420), ([''dst'', ''sub''], Dir 493),
         ([''dst'', ''sub'', ''f''], File ''x'' 420)],
        Returned None)
   \<and> RemoteFileCopyCommand (Suc (Suc fuel)) 18 \<lparr>Recursive = True, Merge = True, Overwrite = True\<rparr> [''dst'']
       [exDir ''sub''] exFs
     = ([([], Dir 493), ([''dst''], Dir 493), ([''dst'', ''a''], File ''old'' 420),
         ([''dst'', ''empty''], Dir 493), ([''dst'', ''sub''], Dir 448)],
        Returned None)"
  by (simp add: RemoteFileCopyCommand_def destPrecheck_def exdefs)

text \<open>
  Claim C1 fails on the code. In the branch for an incoming file over an existing
  directory the code calls \<^verbatim>\<open>os.Remove\<close>, which refuses a directory that is not empty:
  with overwrite, the command returns that error, the directory stays, and no file is
  created. The branch for an incoming directory over a directory calls
  \<^verbatim>\<open>os.RemoveAll\<close> and replaces the same directory.
\<close>

theorem RemoteFileCopyCommand_overwrite_dir_by_file:
  "RemoteFileCopyCommand (Suc fuel) 18 \<lparr>Recursive = True, Merge = True, Overwrite = True\<rparr> [''dst'']
       [exFile ''sub'' ''new''] exFs
     = (exFs, Returned (Some (Errorf ''cannot remove file %q: %w'' [''/dst/sub'']
                                (Some (IOError ''directory not empty'')))))
   \<and> os_Stat exFs [''dst'', ''sub''] = Inr (Dir 493)
   \<and> RemoteFileCopyCommand (Suc (Suc fuel)) 18 \<lparr>Recursive = True, Merge = True, Overwrite = True\<rparr> [''dst'']
       [exDir ''sub''] exFs
     = ([([], Dir 493), ([''dst''], Dir 493), ([''dst'', ''a''], File ''old'' 420),
         ([''dst'', ''empty''], Dir 493), ([''dst'', ''sub''], Dir 448)],
        Returned None)"
  by (simp add: RemoteFileCopyCommand_def destPrecheck_def exdefs)

lemma copyLoop_spin:
  "copyEntry umask merge overwrite dest next fs = (fs, Inr None) \<Longrightarrow>
   copyLoop fuel umask merge overwrite dest next fs = (fs, Running)"
  by (induction fuel) simp_all

text \<open>
  Claim C2 fails on the code. The loop never takes the next entry of the archive. With
  an archive of two files for an existing directory, only the first file is created,
  the second is never looked at, and the command returns success. When the first entry
  is a directory that exists and is merged, the loop evaluates it again and again: the
  command has not returned after any number of iterations. And for a destination that
  does not exist yet, the first directory is created, the rest of the archive is not
  looked at, and the command returns the error of the first \<^verbatim>\<open>os.Stat\<close> as a failure
  to read the tar stream. The umask is \<open>022\<close>.
\<close>

theorem RemoteFileCopyCommand_first_entry_only:
  "RemoteFileCopyCommand (Suc fuel) 18 \<lparr>Recursive = True, Merge = True, Overwrite = False\<rparr> [''dst'']
       [exFile ''c'' ''new'', exFile ''b'' ''bee''] exFs
     = (([''dst'', ''c''], File ''new'' 384) # exFs, Returned None)
   \<and> map_of (([''dst'', ''c''], File ''new'' 384) # exFs) [''dst'', ''b''] = None
   \<and> RemoteFileCopyCommand fuel 18 \<lparr>Recursive = True, Merge = True, Overwrite = False\<rparr> [''dst'']
       [exDir ''sub'', exFile ''b'' ''bee''] exFs
     = (exFs, Running)
   \<and> RemoteFileCopyCommand (Suc fuel) 18 \<lparr>Recursive = True, Merge = False, Overwrite = False\<rparr> [''new'']
       [exDir ''d'', exFile ''b'' ''bee''] exFs
     = (exFs @ [([''new''], Dir 448), ([''new'', ''d''], Dir 448)],
        Returned (Some (Errorf ''cannot read tar stream: %w'' [] (Some ErrNotExist))))"
proof -
  have spin: "copyEntry 18 True False [''dst''] (exDir ''sub'') exFs = (exFs, Inr None)"
    by (simp add: exdefs)
  have pre: "destPrecheck \<lparr>Recursive = True, Merge = True, Overwrite = False\<rparr> [''dst''] exFs = (exFs, None)"
    by (simp add: destPrecheck_def exdefs)
  have one: "copyEntry 18 True False [''dst''] (exFile ''c'' ''new'') exFs
      = (([''dst'', ''c''], File ''new'' 384) # exFs, Inr (Some ErrNotExist))"
    by (simp add: exdefs)
  have st: "os_Stat exFs [''dst''] = Inr (Dir 493)"
    by (simp add: exdefs)
  have a: "RemoteFileCopyCommand (Suc fuel) 18 \<lparr>Recursive = True, Merge = True, Overwrite = False\<rparr> [''dst'']
       [exFile ''c'' ''new'', exFile ''b'' ''bee''] exFs
     = (([''dst'', ''c''], File ''new'' 384) # exFs, Returned None)"
    by (simp add: RemoteFileCopyCommand_def pre one st)
  have b: "map_of (([''dst'', ''c''], File ''new'' 384) # exFs) [''dst'', ''b''] = None"
    by (simp add: exFs_def)
  have c: "RemoteFileCopyCommand fuel 18 \<lparr>Recursive = True, Merge = True, Overwrite = False\<rparr> [''dst'']
       [exDir ''sub'', exFile ''b'' ''bee''] exFs = (exFs, Running)"
    by (simp add: RemoteFileCopyCommand_def pre copyLoop_spin [OF spin])
  have d: "RemoteFileCopyCommand (Suc fuel) 18 \<lparr>Recursive = True, Merge = False, Overwrite = False\<rparr> [''new'']
       [exDir ''d'', exFile ''b'' ''bee''] exFs
     = (exFs @ [([''new''], Dir 448), ([''new'', ''d''], Dir 448)],
        Returned (Some (Errorf ''cannot read tar stream: %w'' [] (Some ErrNotExist))))"
    by (simp add: RemoteFileCopyCommand_def destPrecheck_def exdefs)
  show ?thesis using a b c d by simp
qed

text \<open>
  When the stream fails under \<^verbatim>\<open>io.Copy\<close>, the command returns the error of the write;
  the file exists with what was copied and with the mode it was created with.
\<close>

lemma copy_write_error:
  "RemoteFileCopyCommand (Suc fuel) 18 \<lparr>Recursive = True, Merge = True, Overwrite = False\<rparr> [''dst'']
       [(exFile ''c'' ''ne'')\<lparr>teCopyErr := Some (IOError ''unexpected EOF'')\<rparr>] exFs
     = (([''dst'', ''c''], File ''ne'' 420) # exFs,
        Returned (Some (Errorf ''cannot write file %q: %w'' [''/dst/c'']
                          (Some (IOError ''unexpected EOF'')))))"
  by (simp add: RemoteFileCopyCommand_def destPrecheck_def exdefs)

end
